theory Spec2Isabelle
  imports Main "HOL-Library.Sublist" "HOL-Library.Monad_Syntax"
begin

section \<open>Python values\<close>

text \<open>
  A Python \<open>str\<close> is a sequence of Unicode code points. Literals of the source are written
  \<open>str ''...''\<close>; characters that an Isabelle literal cannot hold are given by number.
\<close>

type_synonym codepoint = nat
type_synonym pystr = "codepoint list"

definition str :: "string \<Rightarrow> pystr" where
  "str s = map of_char s"

text \<open>
  What \<open>json.loads\<close> returns. A float keeps the text of its literal (its binary value is
  not modelled); an object is the list of its items in insertion order, with distinct keys.
\<close>

datatype json =
    JNull
  | JBool bool
  | JInt int
  | JFloat pystr
  | JStr pystr
  | JArr "json list"
  | JObj "(pystr \<times> json) list"

datatype py_exn =
    JSONDecodeError
  | AttributeError
  | KeyError
  | ValueError
  | TypeError
  | UnboundLocalError
  | OverflowError
  | UnicodeEncodeError
  | OSError
  | FileNotFoundError
  | OtherException

text \<open>\<open>subclass_of e c\<close>: an exception of class \<open>e\<close> is caught by \<open>except c\<close>.\<close>

definition subclass_of :: "py_exn \<Rightarrow> py_exn \<Rightarrow> bool" where
  "subclass_of e c =
     (e = c \<or> (e = JSONDecodeError \<and> c = ValueError)
      \<or> (e = UnicodeEncodeError \<and> c = ValueError)
      \<or> (e = FileNotFoundError \<and> c = OSError))"

section \<open>The calendar and the world\<close>

record date =
  year :: nat
  month :: nat
  day :: nat

text \<open>
  An event as the builder leaves it: its name, its begin date, and the all-day flag that
  \<open>make_all_day\<close> sets. The calendar library gives every \<open>Event()\<close> a UID of its own, so
  adding never merges two events; the calendar is the list of the events with their UIDs,
  in the order in which they were added.
\<close>

record event =
  name :: pystr
  begin_date :: date
  all_day :: bool

type_synonym calendar = "(pystr \<times> event) list"

text \<open>
  A file holds the calendar that was serialized into it, UIDs included, or is left
  unfinished by a write that failed.
\<close>

datatype content =
    Written calendar
  | Unfinished

datatype log_entry =
    LogExtracting
  | LogExtracted
  | LogParseError py_exn "pystr option"
  | LogUnexpected py_exn
  | LogGenerating
  | LogSkipping json py_exn
  | LogSaved pystr

text \<open>
  The world the tools act on: the directories made, the files written, the lines printed,
  and the number of events the calendar library has made so far in this process.
\<close>

record world =
  dirs :: "pystr set"
  files :: "pystr \<rightharpoonup> content"
  log :: "log_entry list"
  events_made :: nat

section \<open>The surroundings of the program\<close>

text \<open>
  What the program reads from its surroundings and this theory does not compute.
  Of the interpreter: the Unicode character database beyond ASCII, whether a float literal
  denotes zero, and the text that an f-string gives a value that is not a \<open>str\<close>.
  Of the calendar library: the exception, if any, that it raises when an event is given
  a begin date and made all-day (lines 86 and 87; with \<open>ics\<close> on \<open>arrow\<close>, an
  \<open>OverflowError\<close> on the last day of the year 9999), and the UID it draws at random for
  the n-th event it makes.
  Of the operating system: the exception, if any, raised when a directory is made, when a
  file is opened for writing, and when a calendar is serialized, encoded and written.
\<close>

record runtime =
  uc_isalnum :: "codepoint \<Rightarrow> bool"
  uc_isspace :: "codepoint \<Rightarrow> bool"
  uc_decimal :: "codepoint \<Rightarrow> nat option"
  float_is_zero :: "pystr \<Rightarrow> bool"
  format_value :: "json \<Rightarrow> pystr"
  all_day_error :: "date \<Rightarrow> py_exn option"
  event_uid :: "nat \<Rightarrow> pystr"
  os_makedirs :: "pystr \<Rightarrow> py_exn option"
  os_open :: "pystr \<Rightarrow> py_exn option"
  write_error :: "calendar \<Rightarrow> py_exn option"

definition isalnum :: "runtime \<Rightarrow> codepoint \<Rightarrow> bool" where
  "isalnum rt c =
     (if c < 128 then (48 \<le> c \<and> c \<le> 57) \<or> (65 \<le> c \<and> c \<le> 90) \<or> (97 \<le> c \<and> c \<le> 122)
      else uc_isalnum rt c)"

definition isspace :: "runtime \<Rightarrow> codepoint \<Rightarrow> bool" where
  "isspace rt c =
     (if c < 128 then (9 \<le> c \<and> c \<le> 13) \<or> (28 \<le> c \<and> c \<le> 32)
      else uc_isspace rt c)"

definition decimal_digit :: "runtime \<Rightarrow> codepoint \<Rightarrow> nat option" where
  "decimal_digit rt c =
     (if c < 128 then (if 48 \<le> c \<and> c \<le> 57 then Some (c - 48) else None)
      else uc_decimal rt c)"

definition truthy :: "runtime \<Rightarrow> json \<Rightarrow> bool" where
  "truthy rt v =
     (case v of
        JNull \<Rightarrow> False
      | JBool b \<Rightarrow> b
      | JInt n \<Rightarrow> n \<noteq> 0
      | JFloat f \<Rightarrow> \<not> float_is_zero rt f
      | JStr s \<Rightarrow> s \<noteq> []
      | JArr xs \<Rightarrow> xs \<noteq> []
      | JObj kvs \<Rightarrow> kvs \<noteq> [])"

text \<open>\<open>for item in v\<close>: the items a \<open>for\<close> loop visits, or the \<open>TypeError\<close> it raises.\<close>

definition py_iter :: "json \<Rightarrow> py_exn + json list" where
  "py_iter v =
     (case v of
        JArr xs \<Rightarrow> Inr xs
      | JObj kvs \<Rightarrow> Inr (map (\<lambda>kv. JStr (fst kv)) kvs)
      | JStr s \<Rightarrow> Inr (map (\<lambda>c. JStr [c]) s)
      | _ \<Rightarrow> Inl TypeError)"

text \<open>\<open>item[key]\<close> with a \<open>str\<close> key.\<close>

definition getitem :: "json \<Rightarrow> pystr \<Rightarrow> py_exn + json" where
  "getitem item k =
     (case item of
        JObj kvs \<Rightarrow> (case map_of kvs k of None \<Rightarrow> Inl KeyError | Some v \<Rightarrow> Inr v)
      | _ \<Rightarrow> Inl TypeError)"

text \<open>A replacement field \<open>{v}\<close> of an f-string.\<close>

definition fmt :: "runtime \<Rightarrow> json \<Rightarrow> pystr" where
  "fmt rt v = (case v of JStr s \<Rightarrow> s | _ \<Rightarrow> format_value rt v)"

section \<open>String methods\<close>

definition strip :: "runtime \<Rightarrow> pystr \<Rightarrow> pystr" where
  "strip rt s = rev (dropWhile (isspace rt) (rev (dropWhile (isspace rt) s)))"

text \<open>\<open>s.replace(old, new)\<close>: the occurrences of \<open>old\<close> are found from the left and do not overlap.\<close>

fun replace :: "pystr \<Rightarrow> pystr \<Rightarrow> pystr \<Rightarrow> pystr" where
  "replace old new [] = (if old = [] then new else [])"
| "replace old new (c # cs) =
     (if old = [] then new @ c # replace old new cs
      else if prefix old (c # cs) then new @ replace old new (drop (length old) (c # cs))
      else c # replace old new cs)"

text \<open>\<open>os.path.join(a, b)\<close> on a POSIX system.\<close>

definition path_join :: "pystr \<Rightarrow> pystr \<Rightarrow> pystr" where
  "path_join a b =
     (if prefix [47] b then b
      else if a = [] \<or> last a = 47 then a @ b
      else a @ [47] @ b)"

section \<open>Dates: \<open>datetime.strptime(s, "%Y-%m-%d").date()\<close>\<close>

definition is_leap :: "nat \<Rightarrow> bool" where
  "is_leap y = (y mod 4 = 0 \<and> (y mod 100 \<noteq> 0 \<or> y mod 400 = 0))"

definition days_in_month :: "nat \<Rightarrow> nat \<Rightarrow> nat" where
  "days_in_month y m =
     (if m = 2 then (if is_leap y then 29 else 28)
      else if m = 4 \<or> m = 6 \<or> m = 9 \<or> m = 11 then 30
      else 31)"

text \<open>
  The format is compiled to the regular expression
  \<^verbatim>\<open>(?P<Y>\d\d\d\d)-(?P<m>1[0-2]|0[1-9]|[1-9])-(?P<d>3[0-1]|[1-2]\d|0[1-9]|[1-9]| [1-9])\<close>
  which is matched at the start of the string; the three functions below match one group
  each and return the number read and the rest of the string. \<^verbatim>\<open>\d\<close> is any Unicode
  decimal digit, the ranges are ASCII.
\<close>

definition match_Y :: "runtime \<Rightarrow> pystr \<Rightarrow> (nat \<times> pystr) option" where
  "match_Y rt s =
     (case s of
        a # b # c # d # r \<Rightarrow>
          (case (decimal_digit rt a, decimal_digit rt b, decimal_digit rt c, decimal_digit rt d) of
             (Some w, Some x, Some y, Some z) \<Rightarrow> Some (1000 * w + 100 * x + 10 * y + z, r)
           | _ \<Rightarrow> None)
      | _ \<Rightarrow> None)"

definition match_m :: "pystr \<Rightarrow> (nat \<times> pystr) option" where
  "match_m s =
     (case s of
        [] \<Rightarrow> None
      | a # r \<Rightarrow>
          (case r of
             [] \<Rightarrow> if 49 \<le> a \<and> a \<le> 57 then Some (a - 48, r) else None
           | b # r' \<Rightarrow>
               if a = 49 \<and> 48 \<le> b \<and> b \<le> 50 then Some (10 + (b - 48), r')
               else if a = 48 \<and> 49 \<le> b \<and> b \<le> 57 then Some (b - 48, r')
               else if 49 \<le> a \<and> a \<le> 57 then Some (a - 48, r)
               else None))"

definition match_d :: "runtime \<Rightarrow> pystr \<Rightarrow> (nat \<times> pystr) option" where
  "match_d rt s =
     (case s of
        [] \<Rightarrow> None
      | a # r \<Rightarrow>
          (case r of
             [] \<Rightarrow> if 49 \<le> a \<and> a \<le> 57 then Some (a - 48, r) else None
           | b # r' \<Rightarrow>
               if a = 51 \<and> 48 \<le> b \<and> b \<le> 49 then Some (30 + (b - 48), r')
               else if 49 \<le> a \<and> a \<le> 50 \<and> decimal_digit rt b \<noteq> None
                 then (case decimal_digit rt b of
                         Some x \<Rightarrow> Some (10 * (a - 48) + x, r')
                       | None \<Rightarrow> None)
               else if a = 48 \<and> 49 \<le> b \<and> b \<le> 57 then Some (b - 48, r')
               else if 49 \<le> a \<and> a \<le> 57 then Some (a - 48, r)
               else if a = 32 \<and> 49 \<le> b \<and> b \<le> 57 then Some (b - 48, r')
               else None))"

definition expect :: "codepoint \<Rightarrow> pystr \<Rightarrow> pystr option" where
  "expect c s = (case s of [] \<Rightarrow> None | x # r \<Rightarrow> if x = c then Some r else None)"

text \<open>The whole string has to be consumed (\<open>unconverted data remains\<close> otherwise).\<close>

definition match_format :: "runtime \<Rightarrow> pystr \<Rightarrow> (nat \<times> nat \<times> nat) option" where
  "match_format rt s =
     do {
       (y, s1) \<leftarrow> match_Y rt s;
       s2 \<leftarrow> expect 45 s1;
       (m, s3) \<leftarrow> match_m s2;
       s4 \<leftarrow> expect 45 s3;
       (d, s5) \<leftarrow> match_d rt s4;
       if s5 = [] then Some (y, m, d) else None
     }"

text \<open>
  \<open>strptime\<close> raises \<open>TypeError\<close> for an argument that is not a \<open>str\<close>, and
  \<open>ValueError\<close> for a string that does not match or that names no date of the calendar.
\<close>

definition strptime :: "runtime \<Rightarrow> json \<Rightarrow> py_exn + date" where
  "strptime rt v =
     (case v of
        JStr s \<Rightarrow>
          (case match_format rt s of
             None \<Rightarrow> Inl ValueError
           | Some (y, m, d) \<Rightarrow>
               if 1 \<le> y \<and> y \<le> 9999 \<and> 1 \<le> m \<and> m \<le> 12 \<and> 1 \<le> d \<and> d \<le> days_in_month y m
               then Inr \<lparr>year = y, month = m, day = d\<rparr>
               else Inl ValueError)
      | _ \<Rightarrow> Inl TypeError)"

section \<open>The calendar builder\<close>

definition event_name :: "runtime \<Rightarrow> pystr \<Rightarrow> json \<Rightarrow> json \<Rightarrow> pystr" where
  "event_name rt course_name an at =
     str ''['' @ course_name @ str ''] - '' @ fmt rt an @ str '' ('' @ fmt rt at @ str '')''"

text \<open>Line 83: the due date of an item.\<close>

definition event_date_of :: "runtime \<Rightarrow> json \<Rightarrow> py_exn + date" where
  "event_date_of rt item =
     (case getitem item (str ''due_date'') of
        Inl e \<Rightarrow> Inl e
      | Inr dd \<Rightarrow> strptime rt dd)"

text \<open>
  Lines 85 to 87, on the event made at line 84: the name is composed from the two other
  keys, then the event is given its begin date and made all-day, which the library may
  refuse.
\<close>

definition fill_event :: "runtime \<Rightarrow> pystr \<Rightarrow> json \<Rightarrow> date \<Rightarrow> py_exn + event" where
  "fill_event rt course_name item event_date =
     (case getitem item (str ''assignment_name'') of
        Inl e \<Rightarrow> Inl e
      | Inr an \<Rightarrow>
     (case getitem item (str ''assignment_type'') of
        Inl e \<Rightarrow> Inl e
      | Inr at \<Rightarrow>
     (case all_day_error rt event_date of
        Some e \<Rightarrow> Inl e
      | None \<Rightarrow>
          Inr \<lparr>name = event_name rt course_name an at, begin_date = event_date,
               all_day = True\<rparr>)))"

text \<open>The body of the \<open>try\<close> in the loop, lines 83 to 87.\<close>

definition try_item :: "runtime \<Rightarrow> pystr \<Rightarrow> json \<Rightarrow> py_exn + event" where
  "try_item rt course_name item =
     (case event_date_of rt item of
        Inl e \<Rightarrow> Inl e
      | Inr event_date \<Rightarrow> fill_event rt course_name item event_date)"

text \<open>
  The loop of lines 80 to 91. An item whose due date parses has an \<open>Event()\<close> made for
  it, which draws the next UID, whether or not the event is added in the end. A
  \<open>ValueError\<close> or \<open>KeyError\<close> skips the item with a log line, any other exception
  leaves the function. The result carries the number of events made and the log.
\<close>

fun add_events ::
  "runtime \<Rightarrow> pystr \<Rightarrow> json list \<Rightarrow> calendar \<Rightarrow> nat \<Rightarrow> log_entry list
     \<Rightarrow> (py_exn + calendar) \<times> nat \<times> log_entry list" where
  "add_events rt course_name [] cal n lg = (Inr cal, n, lg)"
| "add_events rt course_name (item # items) cal n lg =
     (case event_date_of rt item of
        Inl e \<Rightarrow>
          if subclass_of e ValueError \<or> subclass_of e KeyError
          then add_events rt course_name items cal n (lg @ [LogSkipping item e])
          else (Inl e, n, lg)
      | Inr event_date \<Rightarrow>
          (case fill_event rt course_name item event_date of
             Inr ev \<Rightarrow>
               add_events rt course_name items (cal @ [(event_uid rt n, ev)]) (Suc n) lg
           | Inl e \<Rightarrow>
               if subclass_of e ValueError \<or> subclass_of e KeyError
               then add_events rt course_name items cal (Suc n) (lg @ [LogSkipping item e])
               else (Inl e, Suc n, lg)))"

definition safe_course_name :: "runtime \<Rightarrow> pystr \<Rightarrow> pystr" where
  "safe_course_name rt course_name = filter (isalnum rt) course_name"

definition schedule_filename :: "runtime \<Rightarrow> pystr \<Rightarrow> pystr" where
  "schedule_filename rt course_name = safe_course_name rt course_name @ str ''_schedule.ics''"

text \<open>
  \<open>os.makedirs(path, exist_ok=True)\<close>: the empty path is refused with
  \<open>FileNotFoundError\<close>, any other path as the operating system decides.
\<close>

definition makedirs :: "runtime \<Rightarrow> pystr \<Rightarrow> world \<Rightarrow> py_exn + world" where
  "makedirs rt path w =
     (if path = [] then Inl FileNotFoundError
      else
        (case os_makedirs rt path of
           Some e \<Rightarrow> Inl e
         | None \<Rightarrow> Inr (w\<lparr>dirs := insert path (dirs w)\<rparr>)))"

definition is_surrogate :: "codepoint \<Rightarrow> bool" where
  "is_surrogate c = (55296 \<le> c \<and> c \<le> 57343)"

text \<open>
  \<open>f.writelines(cal)\<close>: a surrogate in the name of an event cannot be encoded
  (\<open>UnicodeEncodeError\<close>); otherwise as the library and the operating system decide.
\<close>

definition writelines_error :: "runtime \<Rightarrow> calendar \<Rightarrow> py_exn option" where
  "writelines_error rt cal =
     (if list_ex (\<lambda>entry. list_ex is_surrogate (name (snd entry))) cal
      then Some UnicodeEncodeError
      else write_error rt cal)"

text \<open>
  Lines 97 and 98: opening the file for writing empties it; a write that fails leaves it
  unfinished.
\<close>

definition write_calendar :: "runtime \<Rightarrow> pystr \<Rightarrow> calendar \<Rightarrow> world \<Rightarrow> py_exn option \<times> world" where
  "write_calendar rt filepath cal w =
     (case os_open rt filepath of
        Some e \<Rightarrow> (Some e, w)
      | None \<Rightarrow>
          (case writelines_error rt cal of
             Some e \<Rightarrow> (Some e, w\<lparr>files := (files w)(filepath \<mapsto> Unfinished)\<rparr>)
           | None \<Rightarrow> (None, w\<lparr>files := (files w)(filepath \<mapsto> Written cal)\<rparr>)))"

definition generate_ical_file_tool ::
  "runtime \<Rightarrow> pystr \<Rightarrow> json \<Rightarrow> pystr \<Rightarrow> world \<Rightarrow> (py_exn + pystr) \<times> world" where
  "generate_ical_file_tool rt course_name deadlines output_dir w =
     (let w1 = w\<lparr>log := log w @ [LogGenerating]\<rparr> in
      if \<not> truthy rt deadlines then (Inr [], w1)
      else
        (case makedirs rt output_dir w1 of
           Inl e \<Rightarrow> (Inl e, w1)
         | Inr w2 \<Rightarrow>
        (case py_iter deadlines of
           Inl e \<Rightarrow> (Inl e, w2)
         | Inr items \<Rightarrow>
        (case add_events rt course_name items [] (events_made w2) (log w2) of
           (Inl e, n, lg) \<Rightarrow> (Inl e, w2\<lparr>log := lg, events_made := n\<rparr>)
         | (Inr cal, n, lg) \<Rightarrow>
             let w3 = w2\<lparr>log := lg, events_made := n\<rparr>;
                 filepath = path_join output_dir (schedule_filename rt course_name)
             in (case write_calendar rt filepath cal w3 of
                   (Some e, w4) \<Rightarrow> (Inl e, w4)
                 | (None, w4) \<Rightarrow>
                     (Inr filepath, w4\<lparr>log := log w4 @ [LogSaved filepath]\<rparr>))))))"

text \<open>\<open>os.path.basename(p)\<close> on a POSIX system.\<close>

definition basename :: "pystr \<Rightarrow> pystr" where
  "basename p = rev (takeWhile (\<lambda>c. c \<noteq> 47) (rev p))"

text \<open>The event the loop adds for an item, if it adds one.\<close>

definition event_of :: "runtime \<Rightarrow> pystr \<Rightarrow> json \<Rightarrow> event option" where
  "event_of rt course_name item =
     (case try_item rt course_name item of Inr ev \<Rightarrow> Some ev | Inl e \<Rightarrow> None)"

text \<open>The events and the UIDs of a file that was written to the end.\<close>

definition written_events :: "world \<Rightarrow> pystr \<Rightarrow> event list option" where
  "written_events w p =
     (case files w p of Some (Written cal) \<Rightarrow> Some (map snd cal) | _ \<Rightarrow> None)"


section \<open>\<open>json.loads\<close>\<close>

text \<open>
  The decoder is modelled in two passes over the text: the tokens (strings, numbers and
  literals read as the C scanner of CPython reads them, white space between tokens
  skipped), then the values. Every failure is a \<open>JSONDecodeError\<close>. Limits of the
  interpreter (recursion depth, the length of integer literals) are not modelled.
\<close>

datatype token =
    TLBrace
  | TRBrace
  | TLBracket
  | TRBracket
  | TComma
  | TColon
  | TString pystr
  | TValue json

definition is_json_ws :: "codepoint \<Rightarrow> bool" where
  "is_json_ws c = (c = 32 \<or> c = 9 \<or> c = 10 \<or> c = 13)"

definition is_digit :: "codepoint \<Rightarrow> bool" where
  "is_digit c = (48 \<le> c \<and> c \<le> 57)"

definition hex_digit :: "codepoint \<Rightarrow> nat option" where
  "hex_digit c =
     (if 48 \<le> c \<and> c \<le> 57 then Some (c - 48)
      else if 97 \<le> c \<and> c \<le> 102 then Some (c - 87)
      else if 65 \<le> c \<and> c \<le> 70 then Some (c - 55)
      else None)"

text \<open>Four hexadecimal digits at the start of the text: their value and the rest.\<close>

definition take_hex4 :: "pystr \<Rightarrow> (nat \<times> pystr) option" where
  "take_hex4 s =
     (case s of
        a # b # c # d # r \<Rightarrow>
          do {
            w \<leftarrow> hex_digit a;
            x \<leftarrow> hex_digit b;
            y \<leftarrow> hex_digit c;
            z \<leftarrow> hex_digit d;
            Some (4096 * w + 256 * x + 16 * y + z, r)
          }
      | _ \<Rightarrow> None)"

definition escape :: "codepoint \<Rightarrow> codepoint option" where
  "escape e =
     (if e = 34 \<or> e = 92 \<or> e = 47 then Some e
      else if e = 98 then Some 8
      else if e = 102 then Some 12
      else if e = 110 then Some 10
      else if e = 114 then Some 13
      else if e = 116 then Some 9
      else None)"

definition is_high_surrogate :: "nat \<Rightarrow> bool" where
  "is_high_surrogate u = (55296 \<le> u \<and> u \<le> 56319)"

definition is_low_surrogate :: "nat \<Rightarrow> bool" where
  "is_low_surrogate u = (56320 \<le> u \<and> u \<le> 57343)"

definition join_surrogates :: "nat \<Rightarrow> nat \<Rightarrow> codepoint" where
  "join_surrogates u v = 65536 + (u - 55296) * 1024 + (v - 56320)"

text \<open>
  The text after a backslash: the character the escape stands for and the rest. A high
  surrogate escape joins a low surrogate escape that follows it when at least one more
  character comes after that one.
\<close>

definition scan_escape :: "pystr \<Rightarrow> (codepoint \<times> pystr) option" where
  "scan_escape s =
     (case s of
        [] \<Rightarrow> None
      | e # r \<Rightarrow>
          if e = 117 then
            (case take_hex4 r of
               None \<Rightarrow> None
             | Some (u, r4) \<Rightarrow>
                 if is_high_surrogate u \<and> 6 < length r4 \<and> prefix [92, 117] r4 then
                   (case take_hex4 (drop 2 r4) of
                      None \<Rightarrow> None
                    | Some (v, r') \<Rightarrow>
                        if is_low_surrogate v then Some (join_surrogates u v, r')
                        else Some (u, r4))
                 else Some (u, r4))
          else map_option (\<lambda>x. (x, r)) (escape e))"

lemma take_hex4_rest:
  "take_hex4 s = Some (u, r) \<Longrightarrow> s = take 4 s @ r \<and> length s = length r + 4"
  by (auto simp: take_hex4_def split: list.splits Option.bind_splits)

lemma scan_escape_shorter:
  assumes "scan_escape s = Some (x, r)"
  shows "length r < length s"
proof (cases s)
  case Nil
  with assms show ?thesis by (simp add: scan_escape_def)
next
  case (Cons e t)
  show ?thesis
  proof (cases "e = 117")
    case False
    with assms Cons show ?thesis by (auto simp: scan_escape_def)
  next
    case True
    with assms Cons obtain u r4 where h: "take_hex4 t = Some (u, r4)"
      by (auto simp: scan_escape_def split: option.splits)
    then have l4: "length t = length r4 + 4" using take_hex4_rest by blast
    show ?thesis
    proof (cases "is_high_surrogate u \<and> 6 < length r4 \<and> prefix [92, 117] r4")
      case False
      with assms Cons True h have "r = r4" by (auto simp: scan_escape_def)
      with l4 Cons show ?thesis by simp
    next
      case high: True
      with assms Cons True h obtain v r' where
        h2: "take_hex4 (drop 2 r4) = Some (v, r')" and "r = r' \<or> r = r4"
        by (auto simp: scan_escape_def split: option.splits if_splits)
      moreover from h2 have "length (drop 2 r4) = length r' + 4"
        using take_hex4_rest by blast
      ultimately show ?thesis using l4 Cons by auto
    qed
  qed
qed

text \<open>
  The text after an opening quote: the decoded string and what follows the closing quote.
  A control character is refused (strict mode).
\<close>

function scanstring :: "pystr \<Rightarrow> pystr \<Rightarrow> (pystr \<times> pystr) option" where
  "scanstring acc [] = None"
| "scanstring acc (c # cs) =
     (if c = 34 then Some (acc, cs)
      else if c = 92 then
        (case scan_escape cs of
           None \<Rightarrow> None
         | Some (x, r) \<Rightarrow> scanstring (acc @ [x]) r)
      else if c < 32 then None
      else scanstring (acc @ [c]) cs)"
  by pat_completeness auto
termination
proof (relation "measure (\<lambda>(acc, s). length s)")
  fix acc :: pystr and c :: codepoint and cs x2 x y
  assume "scan_escape cs = Some x2" "(x, y) = x2"
  then show "((acc @ [x], y), acc, c # cs) \<in> measure (\<lambda>(acc, s). length s)"
    using scan_escape_shorter [of cs x y] by simp
qed simp_all

definition digits_value :: "pystr \<Rightarrow> nat" where
  "digits_value ds = foldl (\<lambda>n c. 10 * n + (c - 48)) 0 ds"

text \<open>The exponent of a number, or nothing when no digit follows the \<open>e\<close>.\<close>

definition exponent :: "pystr \<Rightarrow> pystr" where
  "exponent s =
     (case s of
        [] \<Rightarrow> []
      | e # t \<Rightarrow>
          if e = 101 \<or> e = 69 then
            (let sg = (case t of [] \<Rightarrow> [] | x # _ \<Rightarrow> if x = 45 \<or> x = 43 then [x] else []);
                 ds = takeWhile is_digit (drop (length sg) t)
             in if ds = [] then [] else e # sg @ ds)
          else [])"

definition fraction :: "pystr \<Rightarrow> pystr" where
  "fraction s =
     (case s of
        d # e # r \<Rightarrow> if d = 46 \<and> is_digit e then d # e # takeWhile is_digit r else []
      | _ \<Rightarrow> [])"

definition int_part :: "pystr \<Rightarrow> pystr" where
  "int_part s =
     (case s of
        [] \<Rightarrow> []
      | c # r \<Rightarrow>
          if c = 48 then [c]
          else if is_digit c then c # takeWhile is_digit r
          else [])"

text \<open>
  A number at the start of the text: sign, integer part, fraction and exponent are read
  one after the other; it is an \<open>int\<close> when it has neither fraction nor exponent, a
  \<open>float\<close> otherwise.
\<close>

definition match_number :: "pystr \<Rightarrow> (json \<times> pystr) option" where
  "match_number s =
     (let sg = (if prefix [45] s then [45] else []);
          ip = int_part (drop (length sg) s)
      in if ip = [] then None
         else
           let fp = fraction (drop (length sg + length ip) s);
               ep = exponent (drop (length sg + length ip + length fp) s);
               r = drop (length sg + length ip + length fp + length ep) s
           in if fp = [] \<and> ep = []
              then Some (JInt (if sg = [] then int (digits_value ip)
                               else - int (digits_value ip)), r)
              else Some (JFloat (sg @ ip @ fp @ ep), r))"

text \<open>The literals, tried in the order of the scanner, before a number is tried.\<close>

definition match_literal :: "pystr \<Rightarrow> (json \<times> pystr) option" where
  "match_literal s =
     (if prefix (str ''null'') s then Some (JNull, drop 4 s)
      else if prefix (str ''true'') s then Some (JBool True, drop 4 s)
      else if prefix (str ''false'') s then Some (JBool False, drop 5 s)
      else if prefix (str ''NaN'') s then Some (JFloat (str ''NaN''), drop 3 s)
      else if prefix (str ''Infinity'') s then Some (JFloat (str ''Infinity''), drop 8 s)
      else if prefix (str ''-Infinity'') s then Some (JFloat (str ''-Infinity''), drop 9 s)
      else match_number s)"

definition punctuation :: "codepoint \<Rightarrow> token option" where
  "punctuation c =
     (if c = 123 then Some TLBrace
      else if c = 125 then Some TRBrace
      else if c = 91 then Some TLBracket
      else if c = 93 then Some TRBracket
      else if c = 44 then Some TComma
      else if c = 58 then Some TColon
      else None)"
lemma scanstring_shorter:
  "scanstring acc s = Some (v, r) \<Longrightarrow> length r < length s"
proof (induction acc s rule: scanstring.induct)
  case (1 acc)
  then show ?case by simp
next
  case (2 acc c cs)
  show ?case
  proof (cases "c = 92")
    case True
    with "2.prems" obtain x r' where e: "scan_escape cs = Some (x, r')"
      and s: "scanstring (acc @ [x]) r' = Some (v, r)"
      by (auto split: option.splits)
    from "2.IH"(1) [of "(x, r')" x r'] True e s have "length r < length r'" by simp
    with scan_escape_shorter [OF e] show ?thesis by simp
  next
    case False
    with "2.prems" "2.IH"(2) show ?thesis by (auto split: if_splits)
  qed
qed

lemma int_part_Nil [simp]: "int_part [] = []"
  by (simp add: int_part_def)

lemma match_number_shorter:
  assumes "match_number s = Some (v, r)"
  shows "length r < length s"
proof -
  define sg :: pystr where "sg = (if prefix [45] s then [45] else [])"
  define ip where "ip = int_part (drop (length sg) s)"
  from assms have ip: "ip \<noteq> []"
    by (auto simp: match_number_def Let_def sg_def ip_def split: if_splits)
  then have "s \<noteq> []" by (auto simp: ip_def)
  moreover from assms ip obtain k where "r = drop k s" "length ip \<le> k"
    by (auto simp: match_number_def Let_def sg_def ip_def split: if_splits)
  ultimately show ?thesis using ip by (cases ip) auto
qed

lemma match_literal_shorter:
  "match_literal s = Some (v, r) \<Longrightarrow> length r < length s"
  by (auto simp: match_literal_def str_def prefix_def dest: match_number_shorter
           split: if_splits)

function lex :: "pystr \<Rightarrow> token list option" where
  "lex [] = Some []"
| "lex (c # cs) =
     (if is_json_ws c then lex cs
      else if c = 34 then
        (case scanstring [] cs of
           None \<Rightarrow> None
         | Some (v, r) \<Rightarrow> map_option ((#) (TString v)) (lex r))
      else
        (case punctuation c of
           Some t \<Rightarrow> map_option ((#) t) (lex cs)
         | None \<Rightarrow>
             (case match_literal (c # cs) of
                None \<Rightarrow> None
              | Some (v, r) \<Rightarrow> map_option ((#) (TValue v)) (lex r))))"
  by pat_completeness auto
termination
proof (relation "measure length")
  show "wf (measure length)" by simp
next
  fix c cs x2 x y
  assume "scanstring [] cs = Some x2" "(x, y) = x2"
  then show "(y, c # cs) \<in> measure length"
    using scanstring_shorter [of "[]" cs x y] by simp
next
  fix c cs x2 x y
  assume "match_literal (c # cs) = Some x2" "(x, y) = x2"
  then show "(y, c # cs) \<in> measure length"
    using match_literal_shorter [of "c # cs" x y] by simp
qed simp_all

text \<open>
  \<open>d[k] = v\<close> on the items of a dictionary: a key already present keeps its place.
\<close>

fun dict_set :: "(pystr \<times> json) list \<Rightarrow> pystr \<Rightarrow> json \<Rightarrow> (pystr \<times> json) list" where
  "dict_set [] k v = [(k, v)]"
| "dict_set (p # ps) k v = (if fst p = k then (k, v) # ps else p # dict_set ps k v)"

text \<open>
  The values, by recursive descent on the tokens. The first argument bounds the number of
  nested calls; \<open>json_loads\<close> starts with twice the number of tokens and two more,
  which is never used up since two calls in a row consume a token (\<open>parse_value_fuel\<close>
  below).
\<close>

fun parse_value :: "nat \<Rightarrow> token list \<Rightarrow> (json \<times> token list) option"
  and parse_elements :: "nat \<Rightarrow> json list \<Rightarrow> token list \<Rightarrow> (json \<times> token list) option"
  and parse_members ::
    "nat \<Rightarrow> (pystr \<times> json) list \<Rightarrow> token list \<Rightarrow> (json \<times> token list) option" where
  "parse_value 0 ts = None"
| "parse_value (Suc n) [] = None"
| "parse_value (Suc n) (t # ts) =
     (case t of
        TString s \<Rightarrow> Some (JStr s, ts)
      | TValue v \<Rightarrow> Some (v, ts)
      | TLBracket \<Rightarrow>
          (case ts of
             TRBracket # r \<Rightarrow> Some (JArr [], r)
           | _ \<Rightarrow> parse_elements n [] ts)
      | TLBrace \<Rightarrow>
          (case ts of
             TRBrace # r \<Rightarrow> Some (JObj [], r)
           | _ \<Rightarrow> parse_members n [] ts)
      | _ \<Rightarrow> None)"
| "parse_elements 0 acc ts = None"
| "parse_elements (Suc n) acc ts =
     (case parse_value n ts of
        None \<Rightarrow> None
      | Some (v, r) \<Rightarrow>
          (case r of
             TComma # r' \<Rightarrow> parse_elements n (acc @ [v]) r'
           | TRBracket # r' \<Rightarrow> Some (JArr (acc @ [v]), r')
           | _ \<Rightarrow> None))"
| "parse_members 0 acc ts = None"
| "parse_members (Suc n) acc ts =
     (case ts of
        TString k # TColon # r \<Rightarrow>
          (case parse_value n r of
             None \<Rightarrow> None
           | Some (v, r') \<Rightarrow>
               (case r' of
                  TComma # r'' \<Rightarrow> parse_members n (dict_set acc k v) r''
                | TRBrace # r'' \<Rightarrow> Some (JObj (dict_set acc k v), r'')
                | _ \<Rightarrow> None))
      | _ \<Rightarrow> None)"

text \<open>
  \<open>json.loads(s)\<close> for a \<open>str\<close>: a leading byte order mark is refused, white space
  around the value is skipped, and nothing may follow the value.
\<close>

definition json_loads :: "pystr \<Rightarrow> py_exn + json" where
  "json_loads s =
     (if prefix [65279] s then Inl JSONDecodeError
      else
        (case lex s of
           None \<Rightarrow> Inl JSONDecodeError
         | Some ts \<Rightarrow>
             (case parse_value (2 * length ts + 2) ts of
                Some (v, []) \<Rightarrow> Inr v
              | _ \<Rightarrow> Inl JSONDecodeError)))"

section \<open>The extractor\<close>

definition prompt :: "pystr \<Rightarrow> pystr" where
  \<open>prompt syllabus_text =
     str ''\<newline>'' @
     str ''    You are an expert academic assistant. Your job is to analyze the following course syllabus text and extract all important deadlines.\<newline>'' @
     str ''    The output must be a valid JSON array of objects.\<newline>'' @
     str ''\<newline>'' @
     str ''    Each object in the array represents a single piece of coursework and must have three keys:\<newline>'' @
     str ''    1. "assignment_name": A concise name for the coursework (e.g., "Essay 1", "Midterm Exam").\<newline>'' @
     str ''    2. "due_date": The deadline for the assignment in "YYYY-MM-DD" format.\<newline>'' @
     str ''    3. "assignment_type": The type of coursework. Choose from: "Essay", "Quiz", "Exam", "Project", "Presentation", "Other".\<newline>'' @
     str ''\<newline>'' @
     str ''    Syllabus Text:\<newline>'' @
     str ''    ---\<newline>'' @
     str ''    '' @
     syllabus_text @
     str ''\<newline>'' @
     str ''    ---\<newline>'' @
     str ''\<newline>'' @
     str ''    Analyze the text carefully. Pay attention to dates, assignment descriptions, and types.\<newline>'' @
     str ''    Return ONLY the raw JSON array. Do not include any other text or formatting.\<newline>'' @
     str ''    Example:\<newline>'' @
     str ''    [\<newline>'' @
     str ''      {"assignment_name": "Problem Set 1", "due_date": "2025-09-15", "assignment_type": "Project"},\<newline>'' @
     str ''      {"assignment_name": "Midterm Examination", "due_date": "2025-10-20", "assignment_type": "Exam"}\<newline>'' @
     str ''    ]\<newline>'' @
     str ''    ''\<close>

text \<open>
  What the call \<open>model.generate_content(prompt)\<close> does: it raises, or it returns a
  response. Reading \<open>response.text\<close> finds no such attribute, finds \<open>None\<close>, finds a
  \<open>str\<close>, or raises in the attribute's getter.
\<close>

datatype text_attr =
    NoTextAttr
  | TextNone
  | TextStr pystr
  | TextRaises py_exn

datatype call_outcome =
    CallRaises py_exn
  | CallReturns text_attr

definition get_text :: "text_attr \<Rightarrow> py_exn + pystr option" where
  "get_text resp =
     (case resp of
        NoTextAttr \<Rightarrow> Inl AttributeError
      | TextNone \<Rightarrow> Inr None
      | TextStr s \<Rightarrow> Inr (Some s)
      | TextRaises e \<Rightarrow> Inl e)"

definition fence_json :: pystr where
  "fence_json = str ''```json''"

definition fence :: pystr where
  "fence = str ''```''"

text \<open>Line 55.\<close>

definition clean_response :: "runtime \<Rightarrow> pystr \<Rightarrow> pystr" where
  "clean_response rt text = replace fence [] (replace fence_json [] (strip rt text))"

text \<open>The body of the \<open>try\<close>, lines 53 to 56.\<close>

definition try_extract :: "runtime \<Rightarrow> call_outcome \<Rightarrow> py_exn + json" where
  "try_extract rt outcome =
     (case outcome of
        CallRaises e \<Rightarrow> Inl e
      | CallReturns response \<Rightarrow>
          (case get_text response of
             Inl e \<Rightarrow> Inl e
           | Inr None \<Rightarrow> Inl AttributeError
           | Inr (Some text) \<Rightarrow> json_loads (clean_response rt text)))"

text \<open>
  The first handler formats \<open>response.text\<close> into its message: it reads the attribute
  again, and an exception raised there leaves the function. When the call itself raised,
  \<open>response\<close> was never bound.
\<close>

definition extract_deadlines_from_syllabus_tool ::
  "runtime \<Rightarrow> pystr \<Rightarrow> (pystr \<Rightarrow> call_outcome) \<Rightarrow> world \<Rightarrow> (py_exn + json) \<times> world" where
  "extract_deadlines_from_syllabus_tool rt syllabus_text model w =
     (let w1 = w\<lparr>log := log w @ [LogExtracting]\<rparr>;
          outcome = model (prompt syllabus_text)
      in case try_extract rt outcome of
           Inr extracted_data \<Rightarrow> (Inr extracted_data, w1\<lparr>log := log w1 @ [LogExtracted]\<rparr>)
         | Inl e \<Rightarrow>
             if subclass_of e JSONDecodeError \<or> subclass_of e AttributeError then
               (case outcome of
                  CallRaises _ \<Rightarrow> (Inl UnboundLocalError, w1)
                | CallReturns response \<Rightarrow>
                    (case get_text response of
                       Inl e' \<Rightarrow> (Inl e', w1)
                     | Inr raw \<Rightarrow> (Inr (JArr []), w1\<lparr>log := log w1 @ [LogParseError e raw]\<rparr>)))
             else (Inr (JArr []), w1\<lparr>log := log w1 @ [LogUnexpected e]\<rparr>))"

section \<open>The orchestrator\<close>

definition failure_message :: pystr where
  "failure_message = str ''Could not extract any deadlines. The AI might have failed to understand the syllabus format. Please check the console for more details.''"

definition success_message :: pystr where
  "success_message = str ''Successfully extracted deadlines! Please review the table below and download your calendar file.''"

text \<open>
  \<open>DataFrame\<close> stands for \<open>pd.DataFrame\<close>: the table it builds from the records, or
  the exception it raises.
\<close>

definition process_syllabus ::
  "runtime \<Rightarrow> (json \<Rightarrow> py_exn + 'tbl) \<Rightarrow> (pystr \<Rightarrow> call_outcome) \<Rightarrow> pystr \<Rightarrow> pystr \<Rightarrow> world
     \<Rightarrow> (py_exn + pystr \<times> 'tbl option \<times> pystr option) \<times> world" where
  "process_syllabus rt DataFrame gemini_model course_name syllabus_text w =
     (case extract_deadlines_from_syllabus_tool rt syllabus_text gemini_model w of
        (Inl e, w1) \<Rightarrow> (Inl e, w1)
      | (Inr extracted_data, w1) \<Rightarrow>
          if \<not> truthy rt extracted_data then (Inr (failure_message, None, None), w1)
          else
            (case DataFrame extracted_data of
               Inl e \<Rightarrow> (Inl e, w1)
             | Inr df \<Rightarrow>
                 (case generate_ical_file_tool rt course_name extracted_data (str ''calendars'') w1 of
                    (Inl e, w2) \<Rightarrow> (Inl e, w2)
                  | (Inr calendar_filepath, w2) \<Rightarrow>
                      (Inr (success_message, Some df, Some calendar_filepath), w2))))"

section \<open>Notions of the specification\<close>

text \<open>
  The specification's \<open>strict YYYY-MM-DD pattern\<close>: four digits, a hyphen, two digits,
  a hyphen and two digits that name a date of the calendar (the specification counts
  \<open>2025-13-40\<close> as not matching).
\<close>

definition strict_YYYY_MM_DD :: "pystr \<Rightarrow> bool" where
  "strict_YYYY_MM_DD s =
     (length s = 10 \<and> list_all (\<lambda>i. is_digit (s ! i)) [0, 1, 2, 3, 5, 6, 8, 9]
      \<and> s ! 4 = 45 \<and> s ! 7 = 45
      \<and> 1 \<le> digits_value (take 4 s)
      \<and> 1 \<le> digits_value (take 2 (drop 5 s)) \<and> digits_value (take 2 (drop 5 s)) \<le> 12
      \<and> 1 \<le> digits_value (drop 8 s)
      \<and> digits_value (drop 8 s)
          \<le> days_in_month (digits_value (take 4 s)) (digits_value (take 2 (drop 5 s))))"


section \<open>Values for the examples\<close>

text \<open>
  Surroundings that know no character beyond ASCII, refuse the last day of the year 9999
  as an all-day event, draw the UIDs \<open>uid-\<close>, \<open>uid-1\<close>, \<open>uid-11\<close> and so on, and
  let every directory be made and every file be written; a world in which nothing was
  written yet; and a record with its three keys in the order of the prompt's example.
\<close>

definition ascii_runtime :: runtime where
  "ascii_runtime =
     \<lparr>uc_isalnum = (\<lambda>c. False), uc_isspace = (\<lambda>c. False), uc_decimal = (\<lambda>c. None),
      float_is_zero = (\<lambda>f. False), format_value = (\<lambda>v. []),
      all_day_error =
        (\<lambda>d. if d = \<lparr>year = 9999, month = 12, day = 31\<rparr> then Some OverflowError else None),
      event_uid = (\<lambda>n. str ''uid-'' @ replicate n 49),
      os_makedirs = (\<lambda>p. None), os_open = (\<lambda>p. None), write_error = (\<lambda>cal. None)\<rparr>"

definition empty_world :: world where
  "empty_world = \<lparr>dirs = {}, files = Map.empty, log = [], events_made = 0\<rparr>"

definition deadline :: "string \<Rightarrow> string \<Rightarrow> string \<Rightarrow> json" where
  "deadline n d t =
     JObj [(str ''assignment_name'', JStr (str n)), (str ''due_date'', JStr (str d)),
           (str ''assignment_type'', JStr (str t))]"

text \<open>A model that returns the same response to every prompt.\<close>

definition responding :: "text_attr \<Rightarrow> pystr \<Rightarrow> call_outcome" where
  "responding response p = CallReturns response"

text \<open>A table that is the records themselves.\<close>

definition table_of :: "json \<Rightarrow> py_exn + json" where
  "table_of v = Inr v"


definition exam_payload :: pystr where
  \<open>exam_payload = str ''[{"assignment_name": "B", "due_date": "2025-10-01", "assignment_type": "Exam"}]''\<close>


section \<open>Properties of the calendar builder\<close>

text \<open>
  C4: called with an empty sequence of records, the builder returns the empty string at
  once: no directory is made and no file is written.
\<close>

theorem generate_empty_records:
  "generate_ical_file_tool rt course_name (JArr []) output_dir w
     = (Inr [], w\<lparr>log := log w @ [LogGenerating]\<rparr>)
   \<and> dirs (snd (generate_ical_file_tool rt course_name (JArr []) output_dir w)) = dirs w
   \<and> files (snd (generate_ical_file_tool rt course_name (JArr []) output_dir w)) = files w"
  by (simp add: generate_ical_file_tool_def truthy_def)

lemmas strptime_defs =
  event_date_of_def getitem_def strptime_def match_format_def match_Y_def decimal_digit_def
  expect_def match_m_def match_d_def days_in_month_def is_leap_def

lemmas builder_defs =
  generate_ical_file_tool_def truthy_def py_iter_def makedirs_def write_calendar_def
  writelines_error_def is_surrogate_def try_item_def fill_event_def event_name_def fmt_def
  path_join_def schedule_filename_def safe_course_name_def isalnum_def Let_def

lemmas example_defs = deadline_def str_def ascii_runtime_def empty_world_def

lemma add_events_Inr:
  "add_events rt cn items cal n lg = (Inr cal', n', lg')
     \<Longrightarrow> map snd cal' = map snd cal @ List.map_filter (event_of rt cn) items"
proof (induction items arbitrary: cal n lg)
  case Nil
  then show ?case by (simp add: List.map_filter_simps)
next
  case (Cons item items)
  show ?case
  proof (cases "event_date_of rt item")
    case (Inl e)
    with Cons.prems
    have "add_events rt cn items cal n (lg @ [LogSkipping item e]) = (Inr cal', n', lg')"
      by (simp split: if_splits)
    from Cons.IH [OF this] Inl show ?thesis
      by (simp add: event_of_def try_item_def List.map_filter_simps)
  next
    case (Inr d)
    show ?thesis
    proof (cases "fill_event rt cn item d")
      case (Inl e)
      with Cons.prems Inr
      have "add_events rt cn items cal (Suc n) (lg @ [LogSkipping item e]) = (Inr cal', n', lg')"
        by (simp split: if_splits)
      from Cons.IH [OF this] Inl Inr show ?thesis
        by (simp add: event_of_def try_item_def List.map_filter_simps)
    next
      case ev: (Inr ev)
      with Cons.prems Inr
      have "add_events rt cn items (cal @ [(event_uid rt n, ev)]) (Suc n) lg = (Inr cal', n', lg')"
        by simp
      from Cons.IH [OF this] ev Inr show ?thesis
        by (simp add: event_of_def try_item_def List.map_filter_simps)
    qed
  qed
qed


lemma generate_records:
  assumes "records \<noteq> []" and "od \<noteq> []" and "os_makedirs rt od = None"
  shows "generate_ical_file_tool rt cn (JArr records) od w =
     (case add_events rt cn records [] (events_made w) (log w @ [LogGenerating]) of
        (Inl e, n, lg) \<Rightarrow> (Inl e, w\<lparr>dirs := insert od (dirs w), log := lg, events_made := n\<rparr>)
      | (Inr cal, n, lg) \<Rightarrow>
          (case write_calendar rt (path_join od (schedule_filename rt cn)) cal
                  (w\<lparr>dirs := insert od (dirs w), log := lg, events_made := n\<rparr>) of
             (Some e, w4) \<Rightarrow> (Inl e, w4)
           | (None, w4) \<Rightarrow>
               (Inr (path_join od (schedule_filename rt cn)),
                w4\<lparr>log := log w4 @ [LogSaved (path_join od (schedule_filename rt cn))]\<rparr>)))"
  using assms
  by (simp add: generate_ical_file_tool_def truthy_def py_iter_def makedirs_def Let_def
           split: prod.splits sum.splits)

lemma generate_returns:
  assumes "generate_ical_file_tool rt cn (JArr records) od w = (Inr p, w')"
    and "records \<noteq> []"
  obtains cal n lg where
    "add_events rt cn records [] (events_made w) (log w @ [LogGenerating]) = (Inr cal, n, lg)"
    and "p = path_join od (schedule_filename rt cn)"
    and "files w' = (files w)(p \<mapsto> Written cal)"
    and "dirs w' = insert od (dirs w)"
    and "events_made w' = n"
    and "od \<noteq> []" and "os_makedirs rt od = None" and "os_open rt p = None"
    and "writelines_error rt cal = None"
proof -
  from assms have od: "od \<noteq> []" "os_makedirs rt od = None"
    by (auto simp: generate_ical_file_tool_def truthy_def makedirs_def Let_def
          split: if_splits option.splits)
  obtain r n lg where a:
    "add_events rt cn records [] (events_made w) (log w @ [LogGenerating]) = (r, n, lg)"
    by (cases "add_events rt cn records [] (events_made w) (log w @ [LogGenerating])")
  with assms od obtain cal where r: "r = Inr cal"
    by (cases r) (auto simp: generate_records)
  from assms od a r show thesis
    by (intro that [of cal n lg])
       (auto simp: generate_records write_calendar_def split: option.splits)
qed







text \<open>
  Where the operating system refuses, the builder raises: with the empty output directory
  no directory can be made, and nothing is written.
\<close>

lemma empty_output_dir_raises:
  "truthy rt deadlines \<Longrightarrow>
     generate_ical_file_tool rt cn deadlines [] w
       = (Inl FileNotFoundError, w\<lparr>log := log w @ [LogGenerating]\<rparr>)"
  by (simp add: generate_ical_file_tool_def makedirs_def)




text \<open>
  A record that is valid in the sense of the specification can still stop the builder:
  the library refuses to make an all-day event on the last day of the year 9999, the
  \<open>OverflowError\<close> is not caught in the loop, and no file is written.
\<close>

lemma last_day_raises:
  "strict_YYYY_MM_DD (str ''9999-12-31'')
   \<and> fst (generate_ical_file_tool ascii_runtime (str ''CS 101'')
          (JArr [deadline ''B'' ''9999-12-31'' ''Exam'']) (str ''calendars'') empty_world)
       = Inl OverflowError
   \<and> files (snd (generate_ical_file_tool ascii_runtime (str ''CS 101'')
          (JArr [deadline ''B'' ''9999-12-31'' ''Exam'']) (str ''calendars'') empty_world))
       = Map.empty"
proof -
  have "strict_YYYY_MM_DD (str ''9999-12-31'')" by code_simp
  then show ?thesis
    by (simp add: builder_defs strptime_defs example_defs subclass_of_def)
qed

text \<open>
  A lone surrogate in an assignment name cannot be encoded when the file is written: the
  builder raises after the file has been opened.
\<close>

lemma surrogate_name_raises:
  "fst (generate_ical_file_tool ascii_runtime (str ''CS 101'')
          (JArr [JObj [(str ''assignment_name'', JStr [55296]),
                       (str ''due_date'', JStr (str ''2025-10-01'')),
                       (str ''assignment_type'', JStr (str ''Exam''))]])
          (str ''calendars'') empty_world)
     = Inl UnicodeEncodeError
   \<and> files (snd (generate_ical_file_tool ascii_runtime (str ''CS 101'')
          (JArr [JObj [(str ''assignment_name'', JStr [55296]),
                       (str ''due_date'', JStr (str ''2025-10-01'')),
                       (str ''assignment_type'', JStr (str ''Exam''))]])
          (str ''calendars'') empty_world))
        (str ''calendars/CS101_schedule.ics'')
     = Some Unfinished"
  by (simp add: builder_defs strptime_defs example_defs subclass_of_def)

lemma basename_append:
  "47 \<notin> set f \<Longrightarrow> a = [] \<or> last a = 47 \<Longrightarrow> basename (a @ f) = f"
proof -
  assume f: "47 \<notin> set f" and a: "a = [] \<or> last a = 47"
  have "takeWhile (\<lambda>c. c \<noteq> 47) (rev f @ rev a) = rev f @ takeWhile (\<lambda>c. c \<noteq> 47) (rev a)"
    using f by (intro takeWhile_append2) auto
  moreover have "takeWhile (\<lambda>c. c \<noteq> 47) (rev a) = []"
    using a by (cases a rule: rev_cases) auto
  ultimately show ?thesis by (simp add: basename_def)
qed

lemma schedule_filename_no_slash: "47 \<notin> set (schedule_filename rt cn)"
  by (auto simp: schedule_filename_def safe_course_name_def isalnum_def str_def)

lemma basename_path_join:
  "basename (path_join od (schedule_filename rt cn)) = schedule_filename rt cn"
proof -
  have np: "\<not> prefix [47] (schedule_filename rt cn)"
    using schedule_filename_no_slash [of rt cn]
    by (cases "schedule_filename rt cn") auto
  show ?thesis
  proof (cases "od = [] \<or> last od = 47")
    case True
    then show ?thesis
      using np basename_append [OF schedule_filename_no_slash, of od rt cn]
      by (simp add: path_join_def)
  next
    case False
    then show ?thesis
      using np basename_append [OF schedule_filename_no_slash, of "od @ [47]" rt cn]
      by (simp add: path_join_def)
  qed
qed

lemma generate_path:
  assumes "generate_ical_file_tool rt cn deadlines od w = (Inr p, w')"
    and "truthy rt deadlines"
  shows "p = path_join od (schedule_filename rt cn)" and "p \<in> dom (files w')"
  using assms
  by (auto simp: generate_ical_file_tool_def write_calendar_def Let_def
        split: sum.splits prod.splits option.splits)

text \<open>
  C5: the name of the file is the course name without its characters that are not
  alphanumeric, in their order, followed by \<open>_schedule.ics\<close>; the builder returns it
  joined to the output directory. \<open>CS 101: Intro!\<close> gives \<open>CS101Intro_schedule.ics\<close>.
\<close>

theorem schedule_file_name:
  assumes "generate_ical_file_tool rt cn deadlines od w = (Inr p, w')"
    and "truthy rt deadlines"
  shows "p = path_join od (filter (isalnum rt) cn @ str ''_schedule.ics'')
       \<and> basename p = filter (isalnum rt) cn @ str ''_schedule.ics''
       \<and> p \<in> dom (files w')
       \<and> schedule_filename rt (str ''CS 101: Intro!'') = str ''CS101Intro_schedule.ics''"
proof -
  from generate_path [OF assms]
  have p: "p = path_join od (schedule_filename rt cn)" and "p \<in> dom (files w')" .
  moreover have "schedule_filename rt (str ''CS 101: Intro!'') = str ''CS101Intro_schedule.ics''"
    by (simp add: schedule_filename_def safe_course_name_def isalnum_def str_def)
  ultimately show ?thesis
    using basename_path_join [of od rt cn]
    by (simp add: schedule_filename_def safe_course_name_def)
qed

text \<open>A run for the course \<open>CS 101: Intro!\<close>.\<close>

theorem schedule_file_name_witness:
  "fst (generate_ical_file_tool ascii_runtime (str ''CS 101: Intro!'')
          (JArr [deadline ''B'' ''2025-10-01'' ''Exam'']) (str ''calendars'') empty_world)
     = Inr (str ''calendars/CS101Intro_schedule.ics'')
   \<and> basename (str ''calendars/CS101Intro_schedule.ics'') = str ''CS101Intro_schedule.ics''"
proof -
  have f: "fst (generate_ical_file_tool ascii_runtime (str ''CS 101: Intro!'')
          (JArr [deadline ''B'' ''2025-10-01'' ''Exam'']) (str ''calendars'') empty_world)
     = Inr (str ''calendars/CS101Intro_schedule.ics'')"
    by (simp add: builder_defs strptime_defs example_defs subclass_of_def)
  then have g: "generate_ical_file_tool ascii_runtime (str ''CS 101: Intro!'')
          (JArr [deadline ''B'' ''2025-10-01'' ''Exam'']) (str ''calendars'') empty_world
      = (Inr (str ''calendars/CS101Intro_schedule.ics''),
         snd (generate_ical_file_tool ascii_runtime (str ''CS 101: Intro!'')
          (JArr [deadline ''B'' ''2025-10-01'' ''Exam'']) (str ''calendars'') empty_world))"
    by (simp add: prod_eq_iff)
  have t: "truthy ascii_runtime (JArr [deadline ''B'' ''2025-10-01'' ''Exam''])"
    by (simp add: truthy_def)
  have b: "basename (str ''calendars/CS101Intro_schedule.ics'') = str ''CS101Intro_schedule.ics''"
    by (simp add: basename_def str_def)
  from schedule_file_name [OF g t] f b show ?thesis by simp
qed

text \<open>
  C9: the calendar that is written holds the events of the records that were not skipped,
  in the order of the input, one event for each such record: nothing is sorted and equal
  entries are not merged.
\<close>

theorem events_follow_input_order:
  assumes "generate_ical_file_tool rt cn (JArr records) od w = (Inr p, w')"
    and "records \<noteq> []"
  shows "written_events w' p = Some (List.map_filter (event_of rt cn) records)
       \<and> length (List.map_filter (event_of rt cn) records)
           = length (filter (\<lambda>r. event_of rt cn r \<noteq> None) records)"
proof -
  from assms obtain cal n lg where
    a: "add_events rt cn records [] (events_made w) (log w @ [LogGenerating]) = (Inr cal, n, lg)"
    and f: "files w' = (files w)(p \<mapsto> Written cal)"
    by (rule generate_returns)
  from add_events_Inr [OF a]
  have "map snd cal = List.map_filter (event_of rt cn) records" by simp
  with f show ?thesis by (simp add: written_events_def List.map_filter_def)
qed

text \<open>Three records out of date order, the first and the last equal: three events.\<close>

theorem events_follow_input_order_witness:
  "written_events (snd (generate_ical_file_tool ascii_runtime (str ''CS 101'')
          (JArr [deadline ''B'' ''2025-10-01'' ''Exam'', deadline ''A'' ''2025-09-15'' ''Quiz'',
                 deadline ''B'' ''2025-10-01'' ''Exam''])
          (str ''calendars'') empty_world))
        (str ''calendars/CS101_schedule.ics'')
     = Some [\<lparr>name = str ''[CS 101] - B (Exam)'',
              begin_date = \<lparr>year = 2025, month = 10, day = 1\<rparr>, all_day = True\<rparr>,
             \<lparr>name = str ''[CS 101] - A (Quiz)'',
              begin_date = \<lparr>year = 2025, month = 9, day = 15\<rparr>, all_day = True\<rparr>,
             \<lparr>name = str ''[CS 101] - B (Exam)'',
              begin_date = \<lparr>year = 2025, month = 10, day = 1\<rparr>, all_day = True\<rparr>]"
proof -
  let ?rs = "[deadline ''B'' ''2025-10-01'' ''Exam'', deadline ''A'' ''2025-09-15'' ''Quiz'',
              deadline ''B'' ''2025-10-01'' ''Exam'']"
  have "fst (generate_ical_file_tool ascii_runtime (str ''CS 101'') (JArr ?rs)
               (str ''calendars'') empty_world)
      = Inr (str ''calendars/CS101_schedule.ics'')"
    by (simp add: builder_defs strptime_defs example_defs subclass_of_def)
  then have g: "generate_ical_file_tool ascii_runtime (str ''CS 101'') (JArr ?rs) (str ''calendars'') empty_world
      = (Inr (str ''calendars/CS101_schedule.ics''),
         snd (generate_ical_file_tool ascii_runtime (str ''CS 101'') (JArr ?rs) (str ''calendars'') empty_world))"
    by (simp add: prod_eq_iff)
  have n: "?rs \<noteq> []" by simp
  have m: "List.map_filter (event_of ascii_runtime (str ''CS 101'')) ?rs
      = [\<lparr>name = str ''[CS 101] - B (Exam)'',
              begin_date = \<lparr>year = 2025, month = 10, day = 1\<rparr>, all_day = True\<rparr>,
             \<lparr>name = str ''[CS 101] - A (Quiz)'',
              begin_date = \<lparr>year = 2025, month = 9, day = 15\<rparr>, all_day = True\<rparr>,
             \<lparr>name = str ''[CS 101] - B (Exam)'',
              begin_date = \<lparr>year = 2025, month = 10, day = 1\<rparr>, all_day = True\<rparr>]"
    by (simp add: List.map_filter_simps event_of_def try_item_def fill_event_def event_name_def
          fmt_def strptime_defs example_defs)
  from events_follow_input_order [OF g n] show ?thesis
    unfolding m by (rule conjunct1)
qed





section \<open>The fuel of the parser\<close>

text \<open>Every call of the parser that returns has consumed a token.\<close>

lemma parse_consumes:
  "(parse_value n ts = Some (v, r) \<longrightarrow> length r < length ts)"
  "(parse_elements n acc ts = Some (v, r) \<longrightarrow> length r < length ts)"
  "(parse_members n kvs ts = Some (v, r) \<longrightarrow> length r < length ts)"
proof (induction n ts and n acc ts and n kvs ts arbitrary: v r and v r and v r
    rule: parse_value_parse_elements_parse_members.induct)
  case (3 n t ts)
  then show ?case
    by (auto split: token.splits list.splits) fastforce+
next
  case (5 n acc ts)
  then show ?case
    by (auto split: option.splits list.splits token.splits) fastforce+
next
  case (7 n acc ts)
  then show ?case
    by (auto split: option.splits list.splits token.splits) fastforce+
qed simp_all


text \<open>
  Above the bound the result does not depend on the fuel: a call never fails for lack of
  it.
\<close>

lemma parse_fuel_all:
  "(\<forall>ts m. 2 * length ts + 1 \<le> n \<longrightarrow> 2 * length ts + 1 \<le> m
       \<longrightarrow> parse_value n ts = parse_value m ts)
   \<and> (\<forall>ts m acc. 2 * length ts + 2 \<le> n \<longrightarrow> 2 * length ts + 2 \<le> m
       \<longrightarrow> parse_elements n acc ts = parse_elements m acc ts)
   \<and> (\<forall>ts m kvs. 2 * length ts + 2 \<le> n \<longrightarrow> 2 * length ts + 2 \<le> m
       \<longrightarrow> parse_members n kvs ts = parse_members m kvs ts)"
proof (induction n)
  case 0
  show ?case by simp
next
  case (Suc n)
  then have ihv: "parse_value n ts = parse_value m ts"
    if "2 * length ts + 1 \<le> n" "2 * length ts + 1 \<le> m" for ts m
    using that by blast
  from Suc have ihe: "parse_elements n acc ts = parse_elements m acc ts"
    if "2 * length ts + 2 \<le> n" "2 * length ts + 2 \<le> m" for ts m acc
    using that by blast
  from Suc have ihm: "parse_members n kvs ts = parse_members m kvs ts"
    if "2 * length ts + 2 \<le> n" "2 * length ts + 2 \<le> m" for ts m kvs
    using that by blast
  have v: "parse_value (Suc n) ts = parse_value m ts"
    if n: "2 * length ts + 1 \<le> Suc n" and m: "2 * length ts + 1 \<le> m" for ts m
  proof (cases ts)
    case Nil
    with m show ?thesis by (cases m) simp_all
  next
    case (Cons t ts')
    with m obtain m' where m': "m = Suc m'" by (cases m) auto
    with n m Cons have b: "2 * length ts' + 2 \<le> n" "2 * length ts' + 2 \<le> m'"
      by simp_all
    from ihe [OF b] ihm [OF b] Cons m' show ?thesis
      by (auto split: token.splits list.splits)
  qed
  have e: "parse_elements (Suc n) acc ts = parse_elements m acc ts"
    if n: "2 * length ts + 2 \<le> Suc n" and m: "2 * length ts + 2 \<le> m" for ts m acc
  proof -
    from m obtain m' where m': "m = Suc m'" by (cases m) auto
    with n m have b: "2 * length ts + 1 \<le> n" "2 * length ts + 1 \<le> m'" by simp_all
    then have pv: "parse_value n ts = parse_value m' ts" by (rule ihv)
    show ?thesis
    proof (cases "parse_value n ts")
      case None
      with pv m' show ?thesis by simp
    next
      case (Some a)
      obtain x r where a: "a = (x, r)" by (cases a)
      with Some parse_consumes(1) [of n ts x r] have l: "length r < length ts" by simp
      have "parse_elements n (acc @ [x]) r' = parse_elements m' (acc @ [x]) r'"
        if "r = TComma # r'" for r'
        using that l b by (intro ihe) simp_all
      with Some a pv m' show ?thesis
        by (simp split: list.splits token.splits)
    qed
  qed
  have mm: "parse_members (Suc n) kvs ts = parse_members m kvs ts"
    if n: "2 * length ts + 2 \<le> Suc n" and m: "2 * length ts + 2 \<le> m" for ts m kvs
  proof -
    from m obtain m' where m': "m = Suc m'" by (cases m) auto
    show ?thesis
    proof (cases "\<exists>k r. ts = TString k # TColon # r")
      case False
      then have "parse_members (Suc j) kvs ts = None" for j
        by (auto split: list.splits token.splits)
      with m' show ?thesis by simp
    next
      case True
      then obtain k r where ts: "ts = TString k # TColon # r" by blast
      with n m m' have b: "2 * length r + 1 \<le> n" "2 * length r + 1 \<le> m'" by simp_all
      then have pv: "parse_value n r = parse_value m' r" by (rule ihv)
      show ?thesis
      proof (cases "parse_value n r")
        case None
        with pv m' ts show ?thesis by simp
      next
        case (Some a)
        obtain x r1 where a: "a = (x, r1)" by (cases a)
        with Some parse_consumes(1) [of n r x r1] have l: "length r1 < length r" by simp
        have "parse_members n (dict_set kvs k x) r2 = parse_members m' (dict_set kvs k x) r2"
          if "r1 = TComma # r2" for r2
          using that l b by (intro ihm) simp_all
        with Some a pv m' ts show ?thesis
          by (simp split: list.splits token.splits)
      qed
    qed
  qed
  from v e mm show ?case by blast
qed

text \<open>More fuel than \<open>json_loads\<close> gives changes nothing.\<close>

lemma parse_value_fuel:
  "2 * length ts + 2 \<le> m \<Longrightarrow> parse_value m ts = parse_value (2 * length ts + 2) ts"
proof -
  assume "2 * length ts + 2 \<le> m"
  then have b: "2 * length ts + 1 \<le> m" by simp
  have a: "2 * length ts + 1 \<le> 2 * length ts + 2" by simp
  from parse_fuel_all [of "2 * length ts + 2"]
  have "\<forall>ts' m'. 2 * length ts' + 1 \<le> 2 * length ts + 2 \<longrightarrow> 2 * length ts' + 1 \<le> m'
      \<longrightarrow> parse_value (2 * length ts + 2) ts' = parse_value m' ts'"
    by (rule conjunct1)
  with a b have "parse_value (2 * length ts + 2) ts = parse_value m ts" by blast
  then show ?thesis by (rule sym)
qed

section \<open>Properties of the response cleanup\<close>

lemma fence_eq: "fence = [96, 96, 96]"
  by (simp add: fence_def str_def)

lemma fence_json_eq: "fence_json = [96, 96, 96, 106, 115, 111, 110]"
  by (simp add: fence_json_def str_def)

declare replace.simps [simp del]

lemma replace_fence_Nil [simp]: "replace fence [] [] = []"
  by (simp add: replace.simps)

lemma replace_fence_hit [simp]: "replace fence [] (96 # 96 # 96 # r) = replace fence [] r"
  by (simp add: replace.simps fence_eq)

lemma replace_fence_miss:
  "\<not> prefix fence (c # cs) \<Longrightarrow> replace fence [] (c # cs) = c # replace fence [] cs"
  by (auto simp: replace.simps fence_eq)

lemma prefix_fence_iff: "prefix fence s \<longleftrightarrow> (\<exists>r. s = 96 # 96 # 96 # r)"
  by (auto simp: fence_eq prefix_def)








lemma prefix_append_disjoint:
  assumes "p \<noteq> []" and "last p \<notin> set t"
  shows "prefix p (s @ t) \<longleftrightarrow> prefix p s"
proof
  assume a: "prefix p (s @ t)"
  show "prefix p s"
  proof (rule ccontr)
    assume n: "\<not> prefix p s"
    with a obtain us where us: "p = s @ us" "prefix us t"
      by (auto simp: prefix_append)
    with n have ne: "us \<noteq> []" by auto
    with us have "last p = last us" by simp
    moreover from us have "set us \<subseteq> set t" by (simp add: set_mono_prefix)
    ultimately have "last p \<in> set t" using ne last_in_set by fastforce
    with assms show False by simp
  qed
next
  assume "prefix p s"
  then show "prefix p (s @ t)" by (simp add: prefix_prefix)
qed

lemma replace_no_occurrence:
  assumes "old \<noteq> []" and "last old \<notin> set t"
  shows "replace old new t = t"
  using assms(2)
proof (induction t)
  case Nil
  with assms(1) show ?case by (simp add: replace.simps)
next
  case (Cons c cs)
  have "\<not> prefix old (c # cs)"
  proof
    assume "prefix old (c # cs)"
    then have "set old \<subseteq> set (c # cs)" by (rule set_mono_prefix)
    with assms(1) Cons.prems show False using last_in_set by blast
  qed
  with assms(1) Cons show ?case by (simp add: replace.simps)
qed

lemma replace_append_disjoint:
  assumes "old \<noteq> []" and "last old \<notin> set t"
  shows "replace old new (s @ t) = replace old new s @ t"
proof (induction s rule: length_induct)
  case (1 s)
  show ?case
  proof (cases s)
    case Nil
    with assms show ?thesis by (simp add: replace_no_occurrence replace.simps)
  next
    case (Cons c cs)
    have p: "prefix old ((c # cs) @ t) \<longleftrightarrow> prefix old (c # cs)"
      using assms by (rule prefix_append_disjoint)
    show ?thesis
    proof (cases "prefix old (c # cs)")
      case True
      then have l: "length old \<le> length (c # cs)" by (rule prefix_length_le)
      then have "drop (length old) ((c # cs) @ t) = drop (length old) (c # cs) @ t"
        unfolding drop_append by simp
      moreover from assms(1) have "length (drop (length old) (c # cs)) < length s"
        using Cons by (cases old) auto
      ultimately show ?thesis
        using "1.IH" True p assms(1) Cons by (simp add: replace.simps)
    next
      case False
      with "1.IH" p assms(1) Cons show ?thesis by (simp add: replace.simps)
    qed
  qed
qed

lemma replace_prepend_disjoint:
  assumes "old \<noteq> []" and "hd old \<notin> set l"
  shows "replace old new (l @ s) = l @ replace old new s"
  using assms(2)
proof (induction l)
  case Nil
  then show ?case by simp
next
  case (Cons c cs)
  from assms(1) Cons.prems have "\<not> prefix old (c # cs @ s)"
    by (cases old) auto
  with assms(1) Cons show ?case by (simp add: replace.simps)
qed

lemma replace_fence_append_fence: "replace fence [] (u @ fence) = replace fence [] u"
proof (induction u rule: length_induct)
  case (1 u)
  show ?case
  proof (cases u)
    case Nil
    then show ?thesis by (simp add: fence_eq replace.simps)
  next
    case (Cons c cs)
    show ?thesis
    proof (cases "prefix fence u")
      case True
      then obtain r where r: "u = 96 # 96 # 96 # r" by (auto simp: prefix_fence_iff)
      with "1.IH" have "replace fence [] (r @ fence) = replace fence [] r" by simp
      with r show ?thesis by simp
    next
      case False
      show ?thesis
      proof (cases "prefix fence (u @ fence)")
        case True
        with False obtain us where "fence = u @ us" by (auto simp: prefix_append)
        then have "prefix u fence" by (metis prefixI)
        then have "u \<in> set (prefixes fence)" by simp
        with False Cons have "u = [96] \<or> u = [96, 96]"
          by (auto simp: fence_eq)
        then show ?thesis by (auto simp: fence_eq replace.simps)
      next
        case nf: False
        from "1.IH" Cons have "replace fence [] (cs @ fence) = replace fence [] cs" by simp
        with False nf Cons show ?thesis by (simp add: replace_fence_miss)
      qed
    qed
  qed
qed

lemma dropWhile_unchanged: "s \<noteq> [] \<Longrightarrow> \<not> P (hd s) \<Longrightarrow> dropWhile P s = s"
  by (cases s) auto

lemma strip_unchanged:
  assumes "s \<noteq> []" and "\<not> isspace rt (hd s)" and "\<not> isspace rt (last s)"
  shows "strip rt s = s"
proof -
  from assms have "dropWhile (isspace rt) s = s" by (simp add: dropWhile_unchanged)
  moreover from assms have "dropWhile (isspace rt) (rev s) = rev s"
    by (simp add: dropWhile_unchanged hd_rev)
  ultimately show ?thesis by (simp add: strip_def)
qed

lemma not_isspace_backtick [simp]: "\<not> isspace rt 96"
  by (simp add: isspace_def)

lemma clean_response_fenced:
  "clean_response rt (fence_json @ t @ fence) = replace fence [] (replace fence_json [] t)"
proof -
  have "strip rt (fence_json @ t @ fence) = fence_json @ t @ fence"
    by (rule strip_unchanged) (simp_all add: fence_eq fence_json_eq)
  moreover have "replace fence_json [] (fence_json @ t @ fence) = replace fence_json [] (t @ fence)"
    by (simp add: replace.simps fence_json_eq)
  moreover have "replace fence_json [] (t @ fence) = replace fence_json [] t @ fence"
    by (rule replace_append_disjoint) (simp_all add: fence_eq fence_json_eq)
  ultimately show ?thesis
    by (simp add: clean_response_def replace_fence_append_fence)
qed

subsection \<open>White space around a JSON text\<close>

lemma hex_digit_ws: "is_json_ws c \<Longrightarrow> hex_digit c = None"
  by (auto simp: is_json_ws_def hex_digit_def)

lemma escape_ws: "is_json_ws c \<Longrightarrow> escape c = None"
  by (auto simp: is_json_ws_def escape_def)

lemma take_hex4_short: "length x < 4 \<Longrightarrow> take_hex4 x = None"
  by (auto simp: take_hex4_def split: list.splits)

lemma take_hex4_append:
  assumes "list_all is_json_ws t"
  shows "take_hex4 (s @ t) = map_option (\<lambda>(u, r). (u, r @ t)) (take_hex4 s)"
proof (cases "4 \<le> length s")
  case True
  then obtain a b c d r where "s = a # b # c # d # r"
    by (cases s; cases "tl s"; cases "tl (tl s)"; cases "tl (tl (tl s))") auto
  then show ?thesis
    by (simp add: take_hex4_def split: Option.bind_splits)
next
  case False
  then have n: "take_hex4 s = None"
    by (simp add: take_hex4_short)
  have "take_hex4 (s @ t) = None"
  proof (cases "4 \<le> length (s @ t)")
    case short: False
    then show ?thesis by (intro take_hex4_short) simp
  next
    case True
    then obtain a b c d r where e: "s @ t = a # b # c # d # r"
      by (cases "s @ t"; cases "tl (s @ t)"; cases "tl (tl (s @ t))";
          cases "tl (tl (tl (s @ t)))") auto
    from False have "length s < 4" by simp
    then have m: "(s @ t) ! length s \<in> set [a, b, c, d]"
      unfolding e by (cases "length s"; cases "length s - 1"; cases "length s - 2";
         cases "length s - 3") auto
    from True False have ne: "t \<noteq> []" by auto
    then have "(s @ t) ! length s = hd t"
      by (simp add: nth_append hd_conv_nth)
    moreover from ne assms have "is_json_ws (hd t)" by (cases t) auto
    ultimately have "hex_digit a = None \<or> hex_digit b = None \<or> hex_digit c = None
        \<or> hex_digit d = None"
      using hex_digit_ws m by auto
    then show ?thesis unfolding e
      by (auto simp: take_hex4_def split: Option.bind_splits)
  qed
  with n show ?thesis by simp
qed

lemma scanstring_ws:
  "list_all is_json_ws t \<Longrightarrow> scanstring acc t = None"
  by (induction t arbitrary: acc) (auto simp: is_json_ws_def)

lemma scan_escape_None_append:
  assumes "list_all is_json_ws t" and "scan_escape cs = None"
  shows "scan_escape (cs @ t) = None"
proof (cases cs)
  case Nil
  with assms show ?thesis
    by (cases t) (auto simp: scan_escape_def escape_ws is_json_ws_def)
next
  case (Cons e r)
  show ?thesis
  proof (cases "e = 117")
    case False
    with assms Cons show ?thesis by (simp add: scan_escape_def)
  next
    case True
    show ?thesis
    proof (cases "take_hex4 r")
      case None
      with assms True Cons show ?thesis
        by (simp add: scan_escape_def take_hex4_append)
    next
      case (Some a)
      obtain u r4 where a: "a = (u, r4)" by (cases a)
      with assms(2) Some True Cons
      have c: "is_high_surrogate u" "6 < length r4" "prefix [92, 117] r4"
        and h: "take_hex4 (drop 2 r4) = None"
        by (auto simp: scan_escape_def split: if_splits option.splits)
      from c have "prefix [92, 117] (r4 @ t)" by (simp add: prefix_prefix)
      moreover from c have "drop 2 (r4 @ t) = drop 2 r4 @ t" by simp
      ultimately show ?thesis
        using assms(1) Some True Cons a c h
        by (simp add: scan_escape_def take_hex4_append)
    qed
  qed
qed

lemma scan_escape_Some_append:
  assumes "list_all is_json_ws t" and "scan_escape cs = Some (x, r)"
  shows "scan_escape (cs @ t) = Some (x, r @ t)
     \<or> (length r \<le> 6 \<and> prefix [92, 117] r
        \<and> (scan_escape (cs @ t) = None \<or> (\<exists>y. scan_escape (cs @ t) = Some (y, t))))"
proof (cases cs)
  case Nil
  with assms show ?thesis by (simp add: scan_escape_def)
next
  case (Cons e r0)
  show ?thesis
  proof (cases "e = 117")
    case False
    with assms Cons show ?thesis by (auto simp: scan_escape_def)
  next
    case True
    with assms Cons obtain u r4 where h: "take_hex4 r0 = Some (u, r4)"
      by (auto simp: scan_escape_def split: option.splits)
    then have h': "take_hex4 (r0 @ t) = Some (u, r4 @ t)"
      using assms(1) by (simp add: take_hex4_append)
    show ?thesis
    proof (cases "is_high_surrogate u \<and> prefix [92, 117] r4")
      case False
      moreover have "117 \<notin> set t"
        using assms(1) by (auto simp: list_all_iff is_json_ws_def)
      then have "prefix [92, 117] (r4 @ t) \<longleftrightarrow> prefix [92, 117] r4"
        by (intro prefix_append_disjoint) simp_all
      ultimately
      have "\<not> (is_high_surrogate u \<and> 6 < length (r4 @ t) \<and> prefix [92, 117] (r4 @ t))"
        by simp
      with False assms Cons True h h' show ?thesis
        by (auto simp: scan_escape_def)
    next
      case hp: True
      then have d: "drop 2 (r4 @ t) = drop 2 r4 @ t" "prefix [92, 117] (r4 @ t)"
        by (auto simp: prefix_def)
      show ?thesis
      proof (cases "6 < length r4")
        case True
        with assms Cons \<open>e = 117\<close> h h' hp d show ?thesis
          by (auto simp: scan_escape_def take_hex4_append split: option.splits if_splits)
      next
        case short: False
        with assms Cons \<open>e = 117\<close> h hp have xr: "x = u" "r = r4"
          by (auto simp: scan_escape_def)
        show ?thesis
        proof (cases "6 < length (r4 @ t)")
          case False
          with short assms Cons \<open>e = 117\<close> h h' xr show ?thesis
            by (auto simp: scan_escape_def)
        next
          case True
          from hp have "2 \<le> length r4" by (auto simp: prefix_def)
          show ?thesis
          proof (cases "length r4 = 6")
            case True
            then have "take_hex4 (drop 2 r4) = None \<or> (\<exists>v. take_hex4 (drop 2 r4) = Some (v, []))"
              by (cases "take_hex4 (drop 2 r4)") (auto dest: take_hex4_rest)
            then have "take_hex4 (drop 2 r4 @ t) = None
                \<or> (\<exists>v. take_hex4 (drop 2 r4 @ t) = Some (v, t))"
              using assms(1) by (auto simp: take_hex4_append)
            with True \<open>6 < length (r4 @ t)\<close> Cons \<open>e = 117\<close> h' hp d xr show ?thesis
              by (auto simp: scan_escape_def split: if_splits)
          next
            case False
            with short have l: "length r4 < 6" by simp
            then have "length (drop 2 r4) < 4" by simp
            then have "take_hex4 (drop 2 r4) = None"
              by (cases "take_hex4 (drop 2 r4)") (auto dest: take_hex4_rest)
            then have "take_hex4 (drop 2 r4 @ t) = None"
              using assms(1) by (simp add: take_hex4_append)
            with True Cons \<open>e = 117\<close> h' hp d xr
            have "scan_escape (cs @ t) = None" by (simp add: scan_escape_def)
            moreover have "scan_escape cs = Some (u, r4)"
              using assms xr by simp
            ultimately show ?thesis using xr l hp by simp
          qed
        qed
      qed
    qed
  qed
qed


lemma scanstring_escape_tail:
  assumes "prefix [92, 117] r" and "length r \<le> 6"
  shows "scanstring acc r = None"
proof -
  from assms obtain r' where r: "r = 92 # 117 # r'" and l: "length r' \<le> 4"
    by (auto simp: prefix_def)
  show ?thesis
  proof (cases "take_hex4 r'")
    case None
    with r show ?thesis by (simp add: scan_escape_def)
  next
    case (Some a)
    obtain v r'' where a: "a = (v, r'')" by (cases a)
    with Some l have "r'' = []" by (auto dest: take_hex4_rest)
    with Some a r show ?thesis by (simp add: scan_escape_def)
  qed
qed

lemma scanstring_append:
  assumes "list_all is_json_ws t"
  shows "scanstring acc (s @ t) = map_option (\<lambda>(v, r). (v, r @ t)) (scanstring acc s)"
proof (induction acc s rule: scanstring.induct)
  case (1 acc)
  from assms show ?case by (simp add: scanstring_ws)
next
  case (2 acc c cs)
  show ?case
  proof (cases "c = 92")
    case False
    with "2.IH"(2) show ?thesis by simp
  next
    case True
    show ?thesis
    proof (cases "scan_escape cs")
      case None
      with assms have "scan_escape (cs @ t) = None" by (simp add: scan_escape_None_append)
      with None True show ?thesis by simp
    next
      case (Some a)
      obtain x r where a: "a = (x, r)" by (cases a)
      from True have "c \<noteq> 34" by simp
      from "2.IH"(1) [OF this True Some a [symmetric]]
      have ih: "scanstring (acc @ [x]) (r @ t)
          = map_option (\<lambda>(v, r). (v, r @ t)) (scanstring (acc @ [x]) r)" .
      from scan_escape_Some_append [OF assms, of cs x r] Some a
      consider "scan_escape (cs @ t) = Some (x, r @ t)"
        | "length r \<le> 6" "prefix [92, 117] r" "scan_escape (cs @ t) = None"
        | y where "length r \<le> 6" "prefix [92, 117] r" "scan_escape (cs @ t) = Some (y, t)"
        by auto
      then show ?thesis
      proof cases
        case 1
        with ih True Some a show ?thesis by simp
      next
        case 2
        then have "scanstring (acc @ [x]) r = None" by (simp add: scanstring_escape_tail)
        with 2 True Some a show ?thesis by simp
      next
        case 3
        then have "scanstring (acc @ [x]) r = None" by (simp add: scanstring_escape_tail)
        moreover from assms have "scanstring (acc @ [y]) t = None" by (rule scanstring_ws)
        ultimately show ?thesis using 3 True Some a by simp
      qed
    qed
  qed
qed

lemma ws_not_digit: "list_all is_json_ws t \<Longrightarrow> takeWhile is_digit t = []"
  by (cases t) (auto simp: is_json_ws_def is_digit_def)

lemma takeWhile_digit_append:
  "list_all is_json_ws t \<Longrightarrow> takeWhile is_digit (s @ t) = takeWhile is_digit s"
  by (induction s) (auto simp: ws_not_digit)

lemma int_part_append:
  "list_all is_json_ws t \<Longrightarrow> int_part (s @ t) = int_part s"
  by (cases s; cases t)
     (auto simp: int_part_def takeWhile_digit_append is_json_ws_def is_digit_def)

lemma fraction_append:
  assumes "list_all is_json_ws t"
  shows "fraction (s @ t) = fraction s"
proof (cases s)
  case Nil
  with assms show ?thesis
    by (cases t) (auto simp: fraction_def is_json_ws_def split: list.splits)
next
  case (Cons d r)
  show ?thesis
  proof (cases r)
    case Nil
    with assms Cons show ?thesis
      by (cases t) (auto simp: fraction_def is_json_ws_def is_digit_def)
  next
    case (Cons e r')
    with assms \<open>s = d # r\<close> show ?thesis
      by (simp add: fraction_def takeWhile_digit_append)
  qed
qed

lemma exponent_append:
  assumes "list_all is_json_ws t"
  shows "exponent (s @ t) = exponent s"
proof (cases s)
  case Nil
  with assms show ?thesis
    by (cases t) (auto simp: exponent_def is_json_ws_def)
next
  case (Cons e r)
  show ?thesis
  proof (cases r)
    case Nil
    with assms Cons show ?thesis
      by (cases t) (auto simp: exponent_def is_json_ws_def ws_not_digit Let_def)
  next
    case (Cons x r')
    with assms \<open>s = e # r\<close> show ?thesis
      by (auto simp: exponent_def takeWhile_digit_append Let_def)
  qed
qed

lemma int_part_prefix: "prefix (int_part s) s"
  by (cases s) (auto simp: int_part_def takeWhile_is_prefix)

lemma fraction_prefix: "prefix (fraction s) s"
  by (auto simp: fraction_def takeWhile_is_prefix split: list.splits)

lemma exponent_prefix: "prefix (exponent s) s"
proof (cases s)
  case Nil
  then show ?thesis by (simp add: exponent_def)
next
  case (Cons e t)
  show ?thesis
  proof (cases t)
    case Nil
    with Cons show ?thesis by (simp add: exponent_def Let_def)
  next
    case (Cons x t')
    with \<open>s = e # t\<close> show ?thesis
      by (auto simp: exponent_def Let_def takeWhile_is_prefix)
  qed
qed

lemma prefix_drop_length:
  "prefix p (drop n s) \<Longrightarrow> n \<le> length s \<Longrightarrow> n + length p \<le> length s"
  by (auto dest: prefix_length_le)

lemma match_number_append:
  assumes "list_all is_json_ws t"
  shows "match_number (s @ t) = map_option (\<lambda>(v, r). (v, r @ t)) (match_number s)"
proof -
  define sg :: pystr where "sg = (if prefix [45] s then [45] else [])"
  define ip where "ip = int_part (drop (length sg) s)"
  define fp where "fp = fraction (drop (length sg + length ip) s)"
  define ep where "ep = exponent (drop (length sg + length ip + length fp) s)"
  have "45 \<notin> set t" using assms by (auto simp: list_all_iff is_json_ws_def)
  then have sg': "(if prefix [45] (s @ t) then [45] else []) = sg"
    unfolding sg_def using prefix_append_disjoint [of "[45]" t s] by simp
  have l1: "length sg \<le> length s"
    by (auto simp: sg_def dest: prefix_length_le)
  have l2: "length sg + length ip \<le> length s"
    unfolding ip_def using int_part_prefix l1 by (rule prefix_drop_length)
  have l3: "length sg + length ip + length fp \<le> length s"
    unfolding fp_def using fraction_prefix l2 by (rule prefix_drop_length)
  have l4: "length sg + length ip + length fp + length ep \<le> length s"
    unfolding ep_def using exponent_prefix l3 by (rule prefix_drop_length)
  have ip': "int_part (drop (length sg) (s @ t)) = ip"
    using l1 assms by (simp add: ip_def int_part_append)
  have fp': "fraction (drop (length sg + length ip) (s @ t)) = fp"
    using l2 assms by (simp add: fp_def fraction_append)
  have ep': "exponent (drop (length sg + length ip + length fp) (s @ t)) = ep"
    using l3 assms by (simp add: ep_def exponent_append)
  have r': "drop (length sg + length ip + length fp + length ep) (s @ t)
      = drop (length sg + length ip + length fp + length ep) s @ t"
    using l4 by simp
  have a: "match_number (s @ t) =
      (if ip = [] then None
       else if fp = [] \<and> ep = []
         then Some (JInt (if sg = [] then int (digits_value ip) else - int (digits_value ip)),
                    drop (length sg + length ip + length fp + length ep) s @ t)
         else Some (JFloat (sg @ ip @ fp @ ep),
                    drop (length sg + length ip + length fp + length ep) s @ t))"
    unfolding match_number_def sg' Let_def ip' fp' ep' r' by simp
  have b: "match_number s =
      (if ip = [] then None
       else if fp = [] \<and> ep = []
         then Some (JInt (if sg = [] then int (digits_value ip) else - int (digits_value ip)),
                    drop (length sg + length ip + length fp + length ep) s)
         else Some (JFloat (sg @ ip @ fp @ ep),
                    drop (length sg + length ip + length fp + length ep) s))"
    unfolding match_number_def Let_def sg_def [symmetric] ip_def [symmetric]
      fp_def [symmetric] ep_def [symmetric] by simp
  show ?thesis unfolding a b by simp
qed

lemma literal_prefix_append:
  assumes "list_all is_json_ws t" and "p \<noteq> []" and "\<not> is_json_ws (last p)"
  shows "prefix p (s @ t) \<longleftrightarrow> prefix p s"
proof -
  from assms have "last p \<notin> set t" by (auto simp: list_all_iff)
  with assms(2) show ?thesis by (rule prefix_append_disjoint)
qed

lemma match_literal_append:
  assumes "list_all is_json_ws t"
  shows "match_literal (s @ t) = map_option (\<lambda>(v, r). (v, r @ t)) (match_literal s)"
proof -
  have p: "prefix (str lit) (s @ t) \<longleftrightarrow> prefix (str lit) s"
    if "lit \<in> {''null'', ''true'', ''false'', ''NaN'', ''Infinity'', ''-Infinity''}" for lit
    using that assms
    by (intro literal_prefix_append) (auto simp: str_def is_json_ws_def)
  have d: "drop (length (str lit)) (s @ t) = drop (length (str lit)) s @ t"
    if "prefix (str lit) s" for lit
    using that by (auto dest: prefix_length_le)
  have l: "length (str ''null'') = 4" "length (str ''true'') = 4" "length (str ''false'') = 5"
    "length (str ''NaN'') = 3" "length (str ''Infinity'') = 8" "length (str ''-Infinity'') = 9"
    by (simp_all add: str_def)
  show ?thesis
    unfolding match_literal_def
    using d [of "''null''"] d [of "''true''"] d [of "''false''"] d [of "''NaN''"]
      d [of "''Infinity''"] d [of "''-Infinity''"] match_number_append [OF assms, of s]
    by (simp add: p l)
qed

lemma lex_ws: "list_all is_json_ws t \<Longrightarrow> lex t = Some []"
  by (induction t) auto

lemma lex_prepend: "list_all is_json_ws l \<Longrightarrow> lex (l @ s) = lex s"
  by (induction l) auto

lemma lex_append:
  assumes "list_all is_json_ws t"
  shows "lex (s @ t) = lex s"
proof (induction s rule: lex.induct)
  case 1
  from assms show ?case by (simp add: lex_ws)
next
  case (2 c cs)
  show ?case
  proof (cases "is_json_ws c")
    case True
    with "2.IH"(1) show ?thesis by simp
  next
    case ws: False
    show ?thesis
    proof (cases "c = 34")
      case True
      show ?thesis
      proof (cases "scanstring [] cs")
        case None
        with ws True assms show ?thesis by (simp add: scanstring_append)
      next
        case (Some a)
        obtain v r where a: "a = (v, r)" by (cases a)
        from "2.IH"(2) [OF ws True Some a [symmetric]] have "lex (r @ t) = lex r" .
        with ws True Some a assms show ?thesis by (simp add: scanstring_append)
      qed
    next
      case False
      show ?thesis
      proof (cases "punctuation c")
        case (Some tok)
        with "2.IH"(4) [OF ws False Some] ws False show ?thesis by simp
      next
        case None
        show ?thesis
        proof (cases "match_literal (c # cs)")
          case n: None
          with match_literal_append [OF assms, of "c # cs"] ws False None show ?thesis
            by simp
        next
          case (Some a)
          obtain v r where a: "a = (v, r)" by (cases a)
          from "2.IH"(3) [OF ws False None Some a [symmetric]] have "lex (r @ t) = lex r" .
          with match_literal_append [OF assms, of "c # cs"] ws False None Some a
          show ?thesis by simp
        qed
      qed
    qed
  qed
qed

lemma lex_bom: "lex (65279 # s) = None"
  by (simp add: is_json_ws_def punctuation_def match_literal_def str_def match_number_def
        int_part_def is_digit_def)

lemma json_loads_lex:
  "json_loads s =
     (case lex s of
        None \<Rightarrow> Inl JSONDecodeError
      | Some ts \<Rightarrow>
          (case parse_value (2 * length ts + 2) ts of
             Some (v, []) \<Rightarrow> Inr v
           | _ \<Rightarrow> Inl JSONDecodeError))"
proof (cases "prefix [65279] s")
  case True
  then obtain r where "s = 65279 # r" by (auto simp: prefix_def)
  then show ?thesis by (simp only: json_loads_def lex_bom) simp
next
  case False
  then show ?thesis by (simp add: json_loads_def)
qed

lemma json_loads_ws:
  "list_all is_json_ws l \<Longrightarrow> list_all is_json_ws t
     \<Longrightarrow> json_loads (l @ s @ t) = json_loads s"
  by (simp add: json_loads_lex lex_prepend lex_append)

subsection \<open>Fences around a response\<close>

lemma strip_decompose:
  obtains l t where "s = l @ strip rt s @ t"
    and "set l \<subseteq> set (takeWhile (isspace rt) s)"
    and "set t \<subseteq> set (takeWhile (isspace rt) (rev s))"
proof -
  let ?P = "isspace rt"
  let ?d = "dropWhile ?P s"
  have s: "s = takeWhile ?P s @ ?d" by simp
  have "?d = rev (dropWhile ?P (rev ?d)) @ rev (takeWhile ?P (rev ?d))"
    by (metis rev_append rev_rev_ident takeWhile_dropWhile_id)
  then have d: "?d = strip rt s @ rev (takeWhile ?P (rev ?d))"
    by (simp add: strip_def)
  have "rev s = rev ?d @ rev (takeWhile ?P s)"
    by (metis rev_append takeWhile_dropWhile_id)
  then have "set (takeWhile ?P (rev ?d)) \<subseteq> set (takeWhile ?P (rev s))"
    by (auto simp: takeWhile_append dest: set_takeWhileD)
  then have t: "set (rev (takeWhile ?P (rev ?d))) \<subseteq> set (takeWhile ?P (rev s))" by simp
  from s d have "s = takeWhile ?P s @ strip rt s @ rev (takeWhile ?P (rev ?d))" by metis
  with t show thesis by (intro that [of "takeWhile ?P s" "rev (takeWhile ?P (rev ?d))"]) auto
qed

lemma replace_between:
  assumes "old \<noteq> []" and "hd old \<notin> set l" and "last old \<notin> set t"
  shows "replace old [] (l @ s @ t) = l @ replace old [] s @ t"
  using assms by (simp add: replace_prepend_disjoint replace_append_disjoint)

lemma clean_between:
  assumes "list_all is_json_ws l" and "list_all is_json_ws t"
  shows "replace fence [] (replace fence_json [] (l @ s @ t))
     = l @ replace fence [] (replace fence_json [] s) @ t"
proof -
  from assms have n: "96 \<notin> set l" "96 \<notin> set t" "110 \<notin> set t"
    by (auto simp: list_all_iff is_json_ws_def)
  then have "replace fence_json [] (l @ s @ t) = l @ replace fence_json [] s @ t"
    by (intro replace_between) (simp_all add: fence_json_eq)
  moreover from n have "replace fence [] (l @ replace fence_json [] s @ t)
      = l @ replace fence [] (replace fence_json [] s) @ t"
    by (intro replace_between) (simp_all add: fence_eq)
  ultimately show ?thesis by simp
qed

lemma json_loads_error: "json_loads s = Inl e \<Longrightarrow> e = JSONDecodeError"
  by (auto simp: json_loads_def split: if_splits option.splits list.splits)

lemma extract_responding_text:
  "fst (extract_deadlines_from_syllabus_tool rt syl (responding (TextStr x)) w)
     = (case json_loads (clean_response rt x) of Inl e \<Rightarrow> Inr (JArr []) | Inr v \<Rightarrow> Inr v)"
  by (auto simp: extract_deadlines_from_syllabus_tool_def responding_def try_extract_def
        get_text_def subclass_of_def Let_def dest: json_loads_error split: sum.splits)

text \<open>
  C6, as amended: when the white space that \<open>strip\<close> would remove from the ends of
  the response text consists of spaces, tabs, line feeds and carriage returns only, the
  text wrapped in \<open>```json\<close> and \<open>```\<close> is cleaned and parsed to the same result as
  the text without the fences, and the extractor returns the same records for both.
\<close>

theorem fenced_response_parses_alike:
  assumes "\<forall>c\<in>set (takeWhile (isspace rt) text). is_json_ws c"
    and "\<forall>c\<in>set (takeWhile (isspace rt) (rev text)). is_json_ws c"
  shows "json_loads (clean_response rt (fence_json @ text @ fence))
           = json_loads (clean_response rt text)
       \<and> fst (extract_deadlines_from_syllabus_tool rt syl
                (responding (TextStr (fence_json @ text @ fence))) w)
           = fst (extract_deadlines_from_syllabus_tool rt syl (responding (TextStr text)) w)"
proof -
  obtain l t where d: "text = l @ strip rt text @ t"
    and "set l \<subseteq> set (takeWhile (isspace rt) text)"
    and "set t \<subseteq> set (takeWhile (isspace rt) (rev text))"
    by (rule strip_decompose)
  with assms have ws: "list_all is_json_ws l" "list_all is_json_ws t"
    by (auto simp: list_all_iff)
  have "clean_response rt (fence_json @ text @ fence)
      = replace fence [] (replace fence_json [] (l @ strip rt text @ t))"
    using d by (simp add: clean_response_fenced)
  also have "\<dots> = l @ clean_response rt text @ t"
    using ws by (simp add: clean_between clean_response_def)
  finally have "json_loads (clean_response rt (fence_json @ text @ fence))
      = json_loads (clean_response rt text)"
    using ws by (simp add: json_loads_ws)
  then show ?thesis by (simp add: extract_responding_text)
qed

text \<open>
  A response with a line feed on either side of the array, as a model writes it inside
  fences.
\<close>

theorem fenced_response_parses_alike_witness:
  "json_loads (clean_response ascii_runtime (fence_json @ (10 # exam_payload @ [10]) @ fence))
     = Inr (JArr [deadline ''B'' ''2025-10-01'' ''Exam''])
   \<and> json_loads (clean_response ascii_runtime (10 # exam_payload @ [10]))
     = Inr (JArr [deadline ''B'' ''2025-10-01'' ''Exam''])"
proof -
  have h1: "\<forall>c\<in>set (takeWhile (isspace ascii_runtime) (10 # exam_payload @ [10])). is_json_ws c"
    by code_simp
  have h2: "\<forall>c\<in>set (takeWhile (isspace ascii_runtime) (rev (10 # exam_payload @ [10]))).
      is_json_ws c"
    by code_simp
  have v: "json_loads (clean_response ascii_runtime (10 # exam_payload @ [10]))
      = Inr (JArr [deadline ''B'' ''2025-10-01'' ''Exam''])"
    unfolding json_loads_lex by code_simp
  from fenced_response_parses_alike [OF h1 h2]
  have "json_loads (clean_response ascii_runtime (fence_json @ (10 # exam_payload @ [10]) @ fence))
      = json_loads (clean_response ascii_runtime (10 # exam_payload @ [10]))"
    by (rule conjunct1)
  with v show ?thesis by (simp only: simp_thms)
qed

text \<open>
  C6 as stated fails: a form feed before the array is removed by \<open>strip\<close> when the
  text stands alone, but not inside the fences, and \<open>json.loads\<close> refuses it: the
  fenced text gives no records, the bare text gives one.
\<close>

theorem fenced_form_feed_counterexample:
  "fst (extract_deadlines_from_syllabus_tool ascii_runtime (str ''Exam on 1 October'')
          (responding (TextStr (fence_json @ (12 # exam_payload) @ fence))) empty_world)
     = Inr (JArr [])
   \<and> fst (extract_deadlines_from_syllabus_tool ascii_runtime (str ''Exam on 1 October'')
          (responding (TextStr (12 # exam_payload))) empty_world)
     = Inr (JArr [deadline ''B'' ''2025-10-01'' ''Exam''])
   \<and> json_loads (clean_response ascii_runtime (fence_json @ (12 # exam_payload) @ fence))
     = Inl JSONDecodeError
   \<and> json_loads (clean_response ascii_runtime (12 # exam_payload))
     = Inr (JArr [deadline ''B'' ''2025-10-01'' ''Exam''])"
  unfolding extract_responding_text json_loads_lex by code_simp







section \<open>Properties of the extractor and the orchestrator\<close>

text \<open>
  C3 at a response without a \<open>text\<close> attribute: the first handler reads
  \<open>response.text\<close> again for its message, so the \<open>AttributeError\<close> leaves the
  extractor; nothing is returned and no failure is logged.
\<close>

theorem missing_text_attribute_raises:
  "extract_deadlines_from_syllabus_tool rt syl (responding NoTextAttr) w
     = (Inl AttributeError, w\<lparr>log := log w @ [LogExtracting]\<rparr>)"
  by (simp add: extract_deadlines_from_syllabus_tool_def responding_def try_extract_def
        get_text_def subclass_of_def Let_def)

text \<open>
  The other cases of the first handler do what C3 says: a text that does not parse, or a
  \<open>text\<close> that is \<open>None\<close>, is logged and the extractor returns the empty sequence.
\<close>

lemma json_failure_returns_empty:
  assumes "json_loads (clean_response rt text) = Inl e"
  shows "extract_deadlines_from_syllabus_tool rt syl (responding (TextStr text)) w
     = (Inr (JArr []),
        w\<lparr>log := log w @ [LogExtracting, LogParseError JSONDecodeError (Some text)]\<rparr>)"
  using assms json_loads_error [OF assms]
  by (simp add: extract_deadlines_from_syllabus_tool_def responding_def try_extract_def
        get_text_def subclass_of_def Let_def)

lemma text_none_returns_empty:
  "extract_deadlines_from_syllabus_tool rt syl (responding TextNone) w
     = (Inr (JArr []), w\<lparr>log := log w @ [LogExtracting, LogParseError AttributeError None]\<rparr>)"
  by (simp add: extract_deadlines_from_syllabus_tool_def responding_def try_extract_def
        get_text_def subclass_of_def Let_def)

lemma extract_keeps_files:
  "files (snd (extract_deadlines_from_syllabus_tool rt syl model w)) = files w
   \<and> dirs (snd (extract_deadlines_from_syllabus_tool rt syl model w)) = dirs w"
  by (simp add: extract_deadlines_from_syllabus_tool_def Let_def
        split: sum.splits call_outcome.splits)

text \<open>
  C7: when the extractor yields the empty sequence, the orchestrator returns the fixed
  failure message with no table and no file path, and writes nothing.
\<close>

theorem empty_extraction_fails:
  assumes "fst (extract_deadlines_from_syllabus_tool rt syl model w) = Inr (JArr [])"
  shows "fst (process_syllabus rt DataFrame model cn syl w)
           = Inr (failure_message, None, None)
       \<and> files (snd (process_syllabus rt DataFrame model cn syl w)) = files w
       \<and> dirs (snd (process_syllabus rt DataFrame model cn syl w)) = dirs w"
proof -
  obtain w1 where e: "extract_deadlines_from_syllabus_tool rt syl model w = (Inr (JArr []), w1)"
    using assms by (cases "extract_deadlines_from_syllabus_tool rt syl model w") simp
  with extract_keeps_files [of rt syl model w] have "files w1 = files w" "dirs w1 = dirs w"
    by simp_all
  with e show ?thesis by (simp add: process_syllabus_def truthy_def)
qed

text \<open>
  The model answers \<open>[]\<close>.
\<close>

theorem empty_extraction_fails_witness:
  "fst (process_syllabus ascii_runtime table_of (responding (TextStr (str ''[]'')))
          (str ''CS 101'') (str ''No deadlines are given.'') empty_world)
     = Inr (failure_message, None, None)"
proof -
  have "fst (extract_deadlines_from_syllabus_tool ascii_runtime (str ''No deadlines are given.'')
          (responding (TextStr (str ''[]''))) empty_world) = Inr (JArr [])"
    unfolding extract_responding_text json_loads_lex by code_simp
  from empty_extraction_fails [OF this] show ?thesis by (rule conjunct1)
qed

end
